theory Spec2Isabelle
  imports Main
begin

section \<open>The sidecar executor: data model\<close>

text \<open>
  The executor of \<^verbatim>\<open>main.go\<close> talks to three outside systems: the Mesos executor
  driver, the Docker client and the Sidecar HTTP endpoint. The model makes every call
  to them an event of a trace and takes their answers as inputs, so that each function
  of the source is a total function from the answers it receives to the trace it
  produces and the way it ends (a return value or a Go panic).
\<close>

subsection \<open>Constants\<close>

text \<open>
  \<^verbatim>\<open>const ( TaskRunning = 0; TaskFinished = iota; TaskFailed = iota; TaskKilled = iota )\<close>:
  \<^verbatim>\<open>iota\<close> is the index of the line in the block, hence 1, 2 and 3.
\<close>

definition TaskRunning :: int where "TaskRunning = 0"
definition TaskFinished :: int where "TaskFinished = 1"
definition TaskFailed :: int where "TaskFailed = 2"
definition TaskKilled :: int where "TaskKilled = 3"

text \<open>Durations are \<^verbatim>\<open>time.Duration\<close> values, counted in nanoseconds.\<close>

definition Second :: int where "Second = 1000000000"
definition Minute :: int where "Minute = 60 * Second"

definition KillTaskTimeout :: nat where "KillTaskTimeout = 5"
definition HttpTimeout :: int where "HttpTimeout = 2 * Second"
definition SidecarRetryCount :: nat where "SidecarRetryCount = 5"
definition SidecarRetryDelay :: int where "SidecarRetryDelay = 3 * Second"
definition SidecarUrl :: string where "SidecarUrl = ''http://localhost:7777/state.json''"
definition SidecarBackoff :: int where "SidecarBackoff = 1 * Minute"

text \<open>
  The status values of the Sidecar library (\<^verbatim>\<open>service.ALIVE\<close>, \<^verbatim>\<open>TOMBSTONE\<close>,
  \<^verbatim>\<open>UNHEALTHY\<close>, \<^verbatim>\<open>UNKNOWN\<close>, an \<^verbatim>\<open>iota\<close> block of that package). The executor
  only compares a status with two of them; no theorem below depends on the numbers.
\<close>

definition ALIVE :: int where "ALIVE = 0"
definition TOMBSTONE :: int where "TOMBSTONE = 1"
definition UNHEALTHY :: int where "UNHEALTHY = 2"
definition UNKNOWN :: int where "UNKNOWN = 3"

subsection \<open>Values exchanged with Mesos, Docker and Sidecar\<close>

datatype TaskState = TASK_RUNNING | TASK_FINISHED | TASK_FAILED | TASK_KILLED

record TaskID =
  Value :: string

text \<open>\<^verbatim>\<open>mesos.TaskStatus{TaskId: taskId, State: mesosStatus}\<close>; the state pointer stays
  nil when \<^verbatim>\<open>sendStatus\<close> is given a number outside its switch.\<close>

record TaskStatus =
  TaskId :: TaskID
  State :: "TaskState option"

text \<open>The part of \<^verbatim>\<open>mesos.TaskInfo\<close> that \<^verbatim>\<open>LaunchTask\<close> reads. The chain
  \<^verbatim>\<open>taskInfo.Container.Docker.ForcePullImage\<close> is a chain of pointers, each of which
  may be nil.\<close>

record DockerInfo =
  ForcePullImage :: "bool option"

record ContainerInfo =
  Docker :: "DockerInfo option"

record TaskInfo =
  Name :: string
  TaskId :: TaskID
  Command :: string
  Container :: "ContainerInfo option"

text \<open>\<^verbatim>\<open>docker.APIContainers\<close> (an entry of a listing) and \<^verbatim>\<open>docker.Container\<close>
  (what create and inspect return), reduced to the fields the executor reads;
  \<open>ExitCode\<close> is the field \<^verbatim>\<open>State.ExitCode\<close>.\<close>

record APIContainers =
  ID :: string

record Container =
  ID :: string
  ExitCode :: int

text \<open>\<^verbatim>\<open>SidecarServices\<close>: servers by host name, each with its services by short
  container identifier. A Go map that is nil answers every lookup with "absent", as the
  empty map does.\<close>

record Service =
  Status :: int

record Server =
  Services :: "string \<rightharpoonup> Service"

record SidecarServices =
  Servers :: "string \<rightharpoonup> Server"

text \<open>Go errors, told apart by where they were made: by the Docker client, by the
  HTTP client, by the executor driver, or by \<^verbatim>\<open>errors.New\<close> in the executor itself.\<close>

datatype error =
    DockerError string
  | HttpError string
  | DriverError string
  | ErrorsNew string

fun Error :: "error \<Rightarrow> string" where
  "Error (DockerError s) = s"
| "Error (HttpError s) = s"
| "Error (DriverError s) = s"
| "Error (ErrorsNew s) = s"

subsection \<open>Traces and outcomes\<close>

datatype level = DebugLevel | InfoLevel | WarnLevel | ErrorLevel

datatype goroutine = WatchContainer | AwaitLooper | RelayLogs | HandleOneStream string

datatype event =
    Log level string
  | WriteFile string
  | SendStatusUpdate TaskStatus
  | PullImage
  | CreateContainer
  | StartContainer string
  | ListContainers bool
  | HttpGet string
  | BodyClose
  | StopContainer string nat
  | InspectContainer string
  | Sleep int
  | DriverStop
  | Go goroutine
  | Tick int
  | Syslog level string
  | Receive

datatype 'a outcome = Returned 'a | Panicked string

type_synonym 'a prog = "event list \<times> 'a outcome"

definition ret :: "'a \<Rightarrow> 'a prog" where
  "ret a = ([], Returned a)"

definition panic :: "string \<Rightarrow> 'a prog" where
  "panic m = ([], Panicked m)"

definition emit :: "event list \<Rightarrow> unit prog" where
  "emit evs = (evs, Returned ())"

definition bind :: "'a prog \<Rightarrow> ('a \<Rightarrow> 'b prog) \<Rightarrow> 'b prog" where
  "bind m f =
     (case m of
        (tr, Panicked msg) \<Rightarrow> (tr, Panicked msg)
      | (tr, Returned a) \<Rightarrow> (case f a of (tr', r) \<Rightarrow> (tr @ tr', r)))"

definition seq :: "unit prog \<Rightarrow> 'b prog \<Rightarrow> 'b prog" where
  "seq m n = bind m (\<lambda>_. n)"

definition nil_dereference :: string where
  "nil_dereference = ''invalid memory address or nil pointer dereference''"

definition slice_out_of_range :: string where
  "slice_out_of_range = ''slice bounds out of range''"

section \<open>The health check against Sidecar\<close>

text \<open>
  What one \<^verbatim>\<open>exec.httpClient.Get(SidecarUrl)\<close> followed by \<^verbatim>\<open>ioutil.ReadAll\<close> can
  meet, each failure with the message of its error. \<^verbatim>\<open>Get\<close> returns a nil response
  with its error when the endpoint cannot be reached or the request times out; a
  response comes with an error only when a redirect is refused.
\<close>

datatype http_answer =
    NoResponse string
  | RefusedRedirect string
  | UnreadableBody string
  | Body string

text \<open>
  The closure \<^verbatim>\<open>fetch\<close>. The statement \<^verbatim>\<open>defer resp.Body.Close()\<close> stands before
  the test of \<^verbatim>\<open>err\<close>; it reads the field \<^verbatim>\<open>Body\<close> of \<^verbatim>\<open>resp\<close> when the
  statement is executed, so a nil response is dereferenced there. The deferred close runs
  when \<^verbatim>\<open>fetch\<close> returns.
\<close>

fun fetch :: "http_answer \<Rightarrow> (string \<times> error option) prog" where
  "fetch (NoResponse e) = ([HttpGet SidecarUrl], Panicked nil_dereference)"
| "fetch (RefusedRedirect e) =
     ([HttpGet SidecarUrl, BodyClose], Returned ('''', Some (HttpError e)))"
| "fetch (UnreadableBody e) =
     ([HttpGet SidecarUrl, BodyClose], Returned ('''', Some (HttpError e)))"
| "fetch (Body b) = ([HttpGet SidecarUrl, BodyClose], Returned (b, None))"

text \<open>
  \<^verbatim>\<open>for i := 0; i < SidecarRetryCount; i++ { data, err = fetch(); if err != nil { continue } }\<close>.
  The answers of the endpoint are given by attempt number. The \<^verbatim>\<open>continue\<close> is the last
  statement of the body, so both branches go on with the next \<^verbatim>\<open>i\<close>.
\<close>

function retryLoop :: "(nat \<Rightarrow> http_answer) \<Rightarrow> nat \<Rightarrow> string \<times> error option \<Rightarrow>
    (string \<times> error option) prog" where
  "retryLoop answers i (data, err) =
     (if i < SidecarRetryCount
      then bind (fetch (answers i))
             (\<lambda>(data', err'). if err' \<noteq> None then retryLoop answers (Suc i) (data', err')
                              else retryLoop answers (Suc i) (data', err'))
      else ret (data, err))"
  by pat_completeness auto
termination
  by (relation "measure (\<lambda>(answers, i, acc). SidecarRetryCount - i)") auto

declare retryLoop.simps [simp del]

definition Getenv :: "(string \<rightharpoonup> string) \<Rightarrow> string \<Rightarrow> string" where
  "Getenv env k = (case env k of None \<Rightarrow> '''' | Some v \<Rightarrow> v)"

text \<open>
  What \<^verbatim>\<open>sidecarStatus\<close> reads from outside: the answers of the endpoint, the result
  of \<^verbatim>\<open>json.Unmarshal\<close> on a body (None when it returns an error), and the process
  environment.
\<close>

record registry =
  answers :: "nat \<Rightarrow> http_answer"
  Unmarshal :: "string \<Rightarrow> SidecarServices option"
  environ :: "string \<rightharpoonup> string"

definition sidecarStatus :: "registry \<Rightarrow> Container \<Rightarrow> error option prog" where
  "sidecarStatus reg container =
     bind (retryLoop (answers reg) 0 ('''', None)) (\<lambda>(data, err).
       if err \<noteq> None
       then seq (emit [Log ErrorLevel ''Can't contact Sidecar! Assuming healthy...'']) (ret None)
       else
         (case Unmarshal reg data of
            None \<Rightarrow>
              seq (emit [Log ErrorLevel ''Can't parse Sidecar results! Assuming healthy...''])
                (ret None)
          | Some services \<Rightarrow>
              (let hostname = Getenv (environ reg) ''TASK_HOST'' in
               case Servers services hostname of
                 None \<Rightarrow>
                   seq (emit [Log ErrorLevel (''Can't find this server ('' @ [CHR 0x27] @ hostname
                          @ [CHR 0x27] @ '') in the Sidecar state! Assuming healthy...'')])
                     (ret None)
               | Some server \<Rightarrow>
                   if length (Container.ID container) < 12 then panic slice_out_of_range
                   else
                     (case Services server (take 12 (Container.ID container)) of
                        None \<Rightarrow>
                          seq (emit [Log ErrorLevel
                                 ''Can't find this service in Sidecar yet! Assuming healthy...''])
                            (ret None)
                      | Some svc \<Rightarrow>
                          if Status svc = UNHEALTHY \<or> Status svc = TOMBSTONE
                          then ret (Some (ErrorsNew (''Unhealthy container: ''
                                 @ Container.ID container @ '' failing task!'')))
                          else ret None))))"

section \<open>Status reports\<close>

text \<open>The switch of \<^verbatim>\<open>sendStatus\<close>; a number it does not list leaves the pointer nil.\<close>

definition mesosStatus :: "int \<Rightarrow> TaskState option" where
  "mesosStatus status =
     (if status = TaskRunning then Some TASK_RUNNING
      else if status = TaskFinished then Some TASK_FINISHED
      else if status = TaskFailed then Some TASK_FAILED
      else if status = TaskKilled then Some TASK_KILLED
      else None)"

text \<open>
  The answers of the outside world to one run: of the driver to each status update, of
  Docker to create, start, stop and inspect, and what each round of the watcher meets
  (the listing and the state of the Sidecar endpoint at that moment). A call that fails
  answers with the message of its error; the executor holds it as an error of the
  driver or of Docker.
\<close>

record observation =
  Listing :: "string + APIContainers list"
  Sidecar :: registry

record world =
  driver_send :: "TaskStatus \<Rightarrow> string option"
  docker_create :: "string + Container"
  docker_start :: "string option"
  docker_stop :: "string option"
  docker_inspect :: "string + Container"
  rounds :: "observation list"

definition sendStatus :: "world \<Rightarrow> int \<Rightarrow> TaskID \<Rightarrow> unit prog" where
  "sendStatus w status taskId =
     (let update = \<lparr>TaskStatus.TaskId = taskId, State = mesosStatus status\<rparr> in
      seq (emit [SendStatusUpdate update])
        (case driver_send w update of
           None \<Rightarrow> ret ()
         | Some msg \<Rightarrow>
             (let err = DriverError msg in
              seq (emit [Log ErrorLevel (''Error sending status update '' @ Error err)])
                (panic (Error err)))))"

definition finishTask :: "world \<Rightarrow> TaskInfo \<Rightarrow> unit prog" where
  "finishTask w taskInfo =
     seq (sendStatus w TaskFinished (TaskInfo.TaskId taskInfo))
       (emit [Sleep (1 * Second), DriverStop])"

definition failTask :: "world \<Rightarrow> TaskInfo \<Rightarrow> unit prog" where
  "failTask w taskInfo =
     seq (sendStatus w TaskFailed (TaskInfo.TaskId taskInfo))
       (emit [Sleep (1 * Second), DriverStop])"

section \<open>The watcher\<close>

text \<open>
  The function given to \<^verbatim>\<open>looper.Loop\<close> in \<^verbatim>\<open>watchContainer\<close>: one round of the
  watcher. The \<^verbatim>\<open>for ... range\<close> over the listing sets \<^verbatim>\<open>ok\<close> at every entry that
  carries the identifier and never resets it.
\<close>

definition watchRound :: "Container \<Rightarrow> observation \<Rightarrow> error option prog" where
  "watchRound container obs =
     seq (emit [ListContainers True])
       (case Listing obs of
          Inl msg \<Rightarrow> ret (Some (DockerError msg))
        | Inr containers \<Rightarrow>
            (let ok = foldl (\<lambda>ok entry. if APIContainers.ID entry = Container.ID container
                                         then True else ok) False containers in
             if \<not> ok
             then ret (Some (ErrorsNew (''Container '' @ Container.ID container
                                          @ '' not running!'')))
             else bind (sidecarStatus (Sidecar obs) container)
                    (\<lambda>err. if err \<noteq> None then ret err else ret None)))"

text \<open>
  The looper of the go-director library, as \<^verbatim>\<open>NewImmediateTimedLooper(FOREVER, d, ...)\<close>
  builds it: \<^verbatim>\<open>Loop\<close> runs the function at once and then at every tick, for ever, and
  stops at the first error, which \<^verbatim>\<open>Wait\<close> then returns. The rounds that the loop
  gets to run are the list of observations; when they are used up the loop is still
  going (\<open>Looping\<close>), and \<^verbatim>\<open>Wait\<close> has not returned.
\<close>

datatype looped = Done "error option" | Looping

fun Loop :: "('a \<Rightarrow> error option prog) \<Rightarrow> int \<Rightarrow> 'a list \<Rightarrow> looped prog" where
  "Loop fn interval [] = ret Looping"
| "Loop fn interval (x # xs) =
     bind (fn x) (\<lambda>err. if err \<noteq> None then ret (Done err)
                         else seq (emit [Tick interval]) (Loop fn interval xs))"

definition watchContainer :: "world \<Rightarrow> Container \<Rightarrow> looped prog" where
  "watchContainer w container =
     seq (emit [Sleep SidecarBackoff])
       (Loop (watchRound container) (3 * Second) (rounds w))"

section \<open>Launching and killing a task\<close>

definition forcePull :: "TaskInfo \<Rightarrow> bool prog" where
  "forcePull taskInfo =
     (case Container taskInfo of
        None \<Rightarrow> panic nil_dereference
      | Some c \<Rightarrow>
          (case Docker c of
             None \<Rightarrow> panic nil_dereference
           | Some d \<Rightarrow>
               (case ForcePullImage d of
                  None \<Rightarrow> panic nil_dereference
                | Some b \<Rightarrow> ret b)))"

text \<open>
  \<^verbatim>\<open>LaunchTask\<close> up to its two \<^verbatim>\<open>go\<close> statements. It returns the container when the
  goroutines were started and nothing when the task was failed. The helpers
  \<^verbatim>\<open>container.PullImage\<close> and \<^verbatim>\<open>container.ConfigForTask\<close> belong to the package
  \<^verbatim>\<open>container\<close> of the repository and are taken as given: the result of the first is
  discarded by the caller and the second builds the argument of the create call, so
  they appear as the events \<open>PullImage\<close> and \<open>CreateContainer\<close> only.
\<close>

definition LaunchTask :: "world \<Rightarrow> TaskInfo \<Rightarrow> Container option prog" where
  "LaunchTask w taskInfo =
     seq (emit [Log InfoLevel (''Launching task '' @ Name taskInfo @ '' with command ''
                  @ [CHR 0x27] @ Command taskInfo @ [CHR 0x27]),
                Log InfoLevel (''Task ID '' @ Value (TaskInfo.TaskId taskInfo)),
                WriteFile ''/tmp/taskinfo.json''])
    (seq (sendStatus w TaskRunning (TaskInfo.TaskId taskInfo))
    (bind (forcePull taskInfo) (\<lambda>force.
     seq (if force then emit [PullImage] else ret ())
    (seq (emit [CreateContainer])
       (case docker_create w of
          Inl msg \<Rightarrow>
            seq (emit [Log ErrorLevel (''Failed to create Docker container: %s''
                         @ Error (DockerError msg))])
           (seq (failTask w taskInfo) (ret None))
        | Inr container \<Rightarrow>
            if length (Container.ID container) < 12 then panic slice_out_of_range
            else
              seq (emit [Log InfoLevel (''Starting container with ID ''
                           @ take 12 (Container.ID container)),
                         StartContainer (Container.ID container)])
                (case docker_start w of
                   Some msg \<Rightarrow>
                     seq (emit [Log ErrorLevel
                            (''Failed to create Docker container: %s''
                             @ Error (DockerError msg))])
                    (seq (failTask w taskInfo) (ret None))
                 | None \<Rightarrow>
                     seq (emit [Go WatchContainer, Go AwaitLooper])
                       (ret (Some container))))))))"

text \<open>
  The second goroutine of \<^verbatim>\<open>LaunchTask\<close> (an anonymous function in the source), from
  the moment \<^verbatim>\<open>looper.Wait()\<close> has returned \<open>err\<close>.
\<close>

definition awaitLooper :: "world \<Rightarrow> TaskInfo \<Rightarrow> error option \<Rightarrow> unit prog" where
  "awaitLooper w taskInfo err =
     (case err of
        Some e \<Rightarrow>
          seq (emit [Log ErrorLevel (''Error! '' @ Error e)]) (failTask w taskInfo)
      | None \<Rightarrow>
          seq (finishTask w taskInfo)
            (emit [Log InfoLevel (''Task completed: '' @ Name taskInfo)]))"

text \<open>
  A task from its launch on, with no kill request: \<^verbatim>\<open>LaunchTask\<close>, then the watcher
  goroutine, then the goroutine that waits for it. The second blocks in
  \<^verbatim>\<open>looper.Wait()\<close> until the first has stopped, so apart from its first log line
  their events come in this order.
\<close>

datatype lifecycle = Ended | StillRunning

definition launchedTask :: "world \<Rightarrow> TaskInfo \<Rightarrow> lifecycle prog" where
  "launchedTask w taskInfo =
     bind (LaunchTask w taskInfo) (\<lambda>launched.
       case launched of
         None \<Rightarrow> ret Ended
       | Some container \<Rightarrow>
           seq (emit [Log InfoLevel (''Monitoring container ''
                        @ take 12 (Container.ID container) @ '' for Mesos task ''
                        @ Value (TaskInfo.TaskId taskInfo))])
          (bind (watchContainer w container) (\<lambda>l.
             case l of
               Looping \<Rightarrow> ret StillRunning
             | Done err \<Rightarrow> seq (awaitLooper w taskInfo err) (ret Ended))))"

definition KillTask :: "world \<Rightarrow> TaskID \<Rightarrow> unit prog" where
  "KillTask w taskID =
     seq (emit [Log InfoLevel (''Killing task: '' @ Value taskID),
                StopContainer (Value taskID) KillTaskTimeout])
    (seq (case docker_stop w of
            Some msg \<Rightarrow>
              emit [Log ErrorLevel (''Error stopping container '' @ Value taskID @ ''! ''
                      @ Error (DockerError msg))]
          | None \<Rightarrow> ret ())
    (seq (emit [InspectContainer (Value taskID)])
    (bind (case docker_inspect w of
             Inr container \<Rightarrow>
               ret (if ExitCode container = 0 then TaskFinished else TaskKilled)
           | Inl msg \<Rightarrow>
               seq (emit [Log ErrorLevel (''Error inspecting container '' @ Value taskID
                            @ ''! '' @ Error (DockerError msg))])
                 (ret TaskKilled))
       (\<lambda>status.
          seq (sendStatus w status taskID)
            (emit [Sleep (1 * Second), DriverStop])))))"

section \<open>The log relay\<close>

text \<open>
  The quit channel of \<^verbatim>\<open>log_relay.go\<close>, a \<^verbatim>\<open>chan struct{}\<close>: whether it has been
  closed, and how many values stand ready to be received. The \<^verbatim>\<open>select\<close> with a
  \<^verbatim>\<open>default\<close> branch receives when the channel is closed (which leaves it closed) or
  a value is ready (which takes it), and goes on otherwise.
\<close>

record chan =
  closed :: bool
  ready :: nat

definition selectQuit :: "chan \<Rightarrow> bool \<times> chan" where
  "selectQuit q =
     (if closed q then (True, q)
      else if 0 < ready q then (True, q\<lparr>ready := ready q - 1\<rparr>)
      else (False, q))"

text \<open>The reader given to a pump: the lines the scanner will deliver, and
  \<^verbatim>\<open>scanner.Err()\<close> once \<^verbatim>\<open>Scan\<close> has returned false (nil at the end of input).\<close>

record reader =
  Lines :: "string list"
  Err :: "error option"

datatype flow = Continue | Return

text \<open>The \<^verbatim>\<open>select\<close> statement that ends a pass through the loop of
  \<^verbatim>\<open>handleOneStream\<close>, after the events \<open>evs\<close> of the pass.\<close>

definition selected :: "event list \<Rightarrow> chan \<Rightarrow> event list \<times> flow \<times> chan" where
  "selected evs q =
     (case selectQuit q of
        (True, q') \<Rightarrow> (evs @ [Receive], Return, q')
      | (False, q') \<Rightarrow> (evs, Continue, q'))"

text \<open>The body of the \<^verbatim>\<open>for scanner.Scan()\<close> loop of \<^verbatim>\<open>handleOneStream\<close> for one
  line: the debug line, the switch on the stream name (whose default branch returns),
  the select on the quit channel.\<close>

definition scanned :: "string \<Rightarrow> string \<Rightarrow> chan \<Rightarrow> event list \<times> flow \<times> chan" where
  "scanned name text q =
     (let debug = [Log DebugLevel (''docker: '' @ text)] in
      if name = ''stdout'' then selected (debug @ [Syslog InfoLevel text]) q
      else if name = ''stderr'' then selected (debug @ [Syslog ErrorLevel text]) q
      else (debug @ [Log ErrorLevel (''handleOneStream(): Unknown stream type '' @ [CHR 0x27]
                       @ name @ [CHR 0x27] @ ''. Exiting log pump.'')], Return, q))"

text \<open>What follows the loop when \<^verbatim>\<open>Scan\<close> has returned false.\<close>

definition drained :: "string \<Rightarrow> error option \<Rightarrow> event list" where
  "drained name err =
     (case err of
        Some e \<Rightarrow> [Log ErrorLevel (''handleOneStream() error reading Docker log input: ''
                     @ [CHR 0x27] @ Error e @ [CHR 0x27] @ ''. Exiting log pump ''
                     @ [CHR 0x27] @ name @ [CHR 0x27] @ ''.'')]
      | None \<Rightarrow> [])
     @ [Log WarnLevel (''Log pump exited for '' @ [CHR 0x27] @ name @ [CHR 0x27])]"

text \<open>\<^verbatim>\<open>handleOneStream\<close> running with nobody else touching the quit channel: the
  events of the pump and the channel it leaves behind.\<close>

fun scanLoop :: "chan \<Rightarrow> string \<Rightarrow> string list \<Rightarrow> error option \<Rightarrow> event list \<times> chan" where
  "scanLoop q name [] err = (drained name err, q)"
| "scanLoop q name (text # rest) err =
     (case scanned name text q of
        (evs, Return, q') \<Rightarrow> (evs, q')
      | (evs, Continue, q') \<Rightarrow>
          (case scanLoop q' name rest err of (evs', q'') \<Rightarrow> (evs @ evs', q'')))"

definition handleOneStream :: "chan \<Rightarrow> string \<Rightarrow> reader \<Rightarrow> event list \<times> chan" where
  "handleOneStream quitChan name rd = scanLoop quitChan name (Lines rd) (Err rd)"

text \<open>
  Two pumps side by side, as \<^verbatim>\<open>relayLogs\<close> starts them with
  \<^verbatim>\<open>go exec.handleOneStream(quitChan, ..., logger, ...)\<close>: each has its own reader and
  they share the quit channel. A pump takes one step per pass through its loop (one
  \<^verbatim>\<open>Scan\<close> and what follows it); a schedule says who moves next, the pumps or the
  owner of the channel, who may close it or offer a value on it.
\<close>

record pump =
  stream :: string
  rest :: "string list"
  failure :: "error option"
  running :: bool

definition pumpStep :: "chan \<Rightarrow> pump \<Rightarrow> event list \<times> pump \<times> chan" where
  "pumpStep q p =
     (if \<not> running p then ([], p, q)
      else
        (case rest p of
           [] \<Rightarrow> (drained (stream p) (failure p), p\<lparr>running := False\<rparr>, q)
         | text # others \<Rightarrow>
             (case scanned (stream p) text q of
                (evs, Return, q') \<Rightarrow> (evs, p\<lparr>rest := others, running := False\<rparr>, q')
              | (evs, Continue, q') \<Rightarrow> (evs, p\<lparr>rest := others\<rparr>, q'))))"

record relay =
  quitChan :: chan
  first :: pump
  second :: pump

datatype actor = FirstPump | SecondPump | CloseQuit | OfferQuit

fun relayStep :: "actor \<Rightarrow> relay \<Rightarrow> (actor \<times> event) list \<times> relay" where
  "relayStep FirstPump r =
     (case pumpStep (quitChan r) (first r) of
        (evs, p, q) \<Rightarrow> (map (Pair FirstPump) evs, r\<lparr>quitChan := q, first := p\<rparr>))"
| "relayStep SecondPump r =
     (case pumpStep (quitChan r) (second r) of
        (evs, p, q) \<Rightarrow> (map (Pair SecondPump) evs, r\<lparr>quitChan := q, second := p\<rparr>))"
| "relayStep CloseQuit r = ([], r\<lparr>quitChan := (quitChan r)\<lparr>closed := True\<rparr>\<rparr>)"
| "relayStep OfferQuit r = ([], r\<lparr>quitChan := (quitChan r)\<lparr>ready := Suc (ready (quitChan r))\<rparr>\<rparr>)"

fun relayRun :: "actor list \<Rightarrow> relay \<Rightarrow> (actor \<times> event) list \<times> relay" where
  "relayRun [] r = ([], r)"
| "relayRun (a # sched) r =
     (case relayStep a r of
        (t, r') \<Rightarrow> (case relayRun sched r' of (t', r'') \<Rightarrow> (t @ t', r'')))"

section \<open>Notions used in the statements\<close>

text \<open>
  The verdict of a parsed snapshot on one container, in the words of the specification:
  the snapshot has the host, under it the short identifier, and that entry is unhealthy
  or tombstoned. A body that does not parse gives no snapshot.
\<close>

definition unhealthy_entry :: "SidecarServices option \<Rightarrow> string \<Rightarrow> string \<Rightarrow> bool" where
  "unhealthy_entry parsed host short =
     (case parsed of
        None \<Rightarrow> False
      | Some services \<Rightarrow>
          (case Servers services host of
             None \<Rightarrow> False
           | Some server \<Rightarrow>
               (case Services server short of
                  None \<Rightarrow> False
                | Some svc \<Rightarrow> Status svc = UNHEALTHY \<or> Status svc = TOMBSTONE)))"

text \<open>A fetch attempt that fails although a response came back.\<close>

definition responded_error :: "http_answer \<Rightarrow> bool" where
  "responded_error a =
     (case a of RefusedRedirect e \<Rightarrow> True | UnreadableBody e \<Rightarrow> True | _ \<Rightarrow> False)"

subsection \<open>Concrete inputs\<close>

text \<open>A Sidecar endpoint that answers every request and reports the container
  \<open>abc123456789\<close> on \<open>host-a\<close> as unhealthy.\<close>

definition registry_unhealthy :: registry where
  "registry_unhealthy =
     \<lparr>answers = (\<lambda>i. Body ''{}''),
      Unmarshal = (\<lambda>b. Some \<lparr>Servers = [''host-a'' \<mapsto>
                      \<lparr>Services = [''abc123456789'' \<mapsto> \<lparr>Status = UNHEALTHY\<rparr>]\<rparr>]\<rparr>),
      environ = [''TASK_HOST'' \<mapsto> ''host-a'']\<rparr>"

text \<open>The same endpoint when nothing listens on its port.\<close>

definition registry_down :: registry where
  "registry_down = registry_unhealthy
     \<lparr>answers := (\<lambda>i. NoResponse ''dial tcp 127.0.0.1:7777: connection refused'')\<rparr>"

text \<open>The same endpoint when only the first request of a poll gets its body through.\<close>

definition registry_flaky :: registry where
  "registry_flaky = registry_unhealthy
     \<lparr>answers := (\<lambda>i. if i = 0 then Body ''{}''
                       else UnreadableBody ''unexpected EOF'')\<rparr>"

definition container_abc :: Container where
  "container_abc = \<lparr>Container.ID = ''abc123456789abcdef'', ExitCode = 0\<rparr>"

subsection \<open>Reading a trace\<close>

fun is_log :: "event \<Rightarrow> bool" where
  "is_log (Log l s) = True"
| "is_log _ = False"

text \<open>The calls a run makes to the outside, its log lines left out.\<close>

definition calls :: "event list \<Rightarrow> event list" where
  "calls tr = filter (\<lambda>e. \<not> is_log e) tr"

definition update :: "TaskID \<Rightarrow> TaskState \<Rightarrow> TaskStatus" where
  "update tid st = \<lparr>TaskStatus.TaskId = tid, State = Some st\<rparr>"

definition report :: "TaskID \<Rightarrow> TaskState \<Rightarrow> event" where
  "report tid st = SendStatusUpdate (update tid st)"

fun is_report :: "event \<Rightarrow> bool" where
  "is_report (SendStatusUpdate u) = True"
| "is_report _ = False"

fun terminal_report :: "event \<Rightarrow> bool" where
  "terminal_report (SendStatusUpdate u) =
     (State u = Some TASK_FINISHED \<or> State u = Some TASK_FAILED \<or> State u = Some TASK_KILLED)"
| "terminal_report _ = False"

fun is_start :: "event \<Rightarrow> bool" where
  "is_start (StartContainer i) = True"
| "is_start _ = False"

fun is_go :: "event \<Rightarrow> bool" where
  "is_go (Go g) = True"
| "is_go _ = False"

text \<open>The container a call to the runtime is aimed at, for the calls of the kill path.\<close>

fun target :: "event \<Rightarrow> string option" where
  "target (StopContainer i n) = Some i"
| "target (InspectContainer i) = Some i"
| "target _ = None"

definition targets :: "event list \<Rightarrow> string list" where
  "targets tr = List.map_filter target tr"

text \<open>The state a kill is to report, in the words of the specification: Finished when
  the inspected exit code is 0, Killed for any other exit code or when the inspection
  fails.\<close>

definition killed_state :: "string + Container \<Rightarrow> TaskState" where
  "killed_state inspected =
     (case inspected of
        Inr c \<Rightarrow> if ExitCode c = 0 then TASK_FINISHED else TASK_KILLED
      | Inl err \<Rightarrow> TASK_KILLED)"

text \<open>A world in which every call succeeds and the watcher has not yet run a round.\<close>

definition world_calm :: world where
  "world_calm =
     \<lparr>driver_send = (\<lambda>u. None),
      docker_create = Inr container_abc,
      docker_start = None,
      docker_stop = None,
      docker_inspect = Inr container_abc,
      rounds = []\<rparr>"

text \<open>A kill request whose stop and inspect calls both fail.\<close>

definition world_kill_errors :: world where
  "world_kill_errors = world_calm
     \<lparr>docker_stop := Some ''No such container: task-1'',
      docker_inspect := Inl ''No such container: task-1''\<rparr>"

text \<open>A launch whose create call is refused, and one whose start call is.\<close>

definition world_create_fails :: world where
  "world_create_fails = world_calm\<lparr>docker_create := Inl ''no such image''\<rparr>"

definition world_start_fails :: world where
  "world_start_fails = world_calm\<lparr>docker_start := Some ''port is already allocated''\<rparr>"

definition task_1 :: TaskInfo where
  "task_1 =
     \<lparr>Name = ''web'', TaskInfo.TaskId = \<lparr>Value = ''task-1''\<rparr>, Command = ''run'',
      Container = Some \<lparr>Docker = Some \<lparr>ForcePullImage = Some True\<rparr>\<rparr>\<rparr>"

text \<open>
  The shape of a run, read off its trace. Before the first terminal report the driver is
  not stopped. After it no status is reported, and a stop of the driver, when there is
  one, is the second event after the report, right behind a sleep of one second, and
  the only one.
\<close>

definition orderly :: "event list \<Rightarrow> bool" where
  "orderly tr =
     (DriverStop \<notin> set (takeWhile (\<lambda>e. \<not> terminal_report e) tr) \<and>
      (case dropWhile (\<lambda>e. \<not> terminal_report e) tr of
         [] \<Rightarrow> True
       | r # later \<Rightarrow>
           (\<forall>e \<in> set later. \<not> is_report e) \<and>
           (DriverStop \<in> set later \<longrightarrow>
              take 2 later = [Sleep (1 * Second), DriverStop] \<and>
              DriverStop \<notin> set (drop 2 later))))"

text \<open>The error of the watcher when the listing lacks the container.\<close>

definition not_running :: "Container \<Rightarrow> error" where
  "not_running container = ErrorsNew (''Container '' @ Container.ID container @ '' not running!'')"

text \<open>A round of the watcher in which the listing holds other containers only, and a
  world whose first round is such a round.\<close>

definition round_absent :: observation where
  "round_absent =
     \<lparr>Listing = Inr [\<lparr>APIContainers.ID = ''0123456789abcdef''\<rparr>], Sidecar = registry_unhealthy\<rparr>"

definition world_absent :: world where
  "world_absent = world_calm\<lparr>rounds := [round_absent]\<rparr>"

fun is_syslog :: "event \<Rightarrow> bool" where
  "is_syslog (Syslog l s) = True"
| "is_syslog _ = False"

text \<open>A relay whose first pump was started with the stream name \<open>stdin\<close>, next to a
  pump for \<open>stdout\<close>; the quit channel is open and empty.\<close>

definition chan_open :: chan where
  "chan_open = \<lparr>closed = False, ready = 0\<rparr>"

definition relay_stdin :: relay where
  "relay_stdin =
     \<lparr>quitChan = chan_open,
      first = \<lparr>stream = ''stdin'', rest = [''one'', ''two''], failure = None, running = True\<rparr>,
      second = \<lparr>stream = ''stdout'', rest = [''a'', ''b''], failure = None, running = True\<rparr>\<rparr>"

subsection \<open>A kill request that meets a running launch path\<close>

text \<open>
  \<^verbatim>\<open>KillTask\<close> is a callback of the driver; the watcher and the goroutine that waits for
  it run beside it. Their events may come in any order that keeps the order of each:
  a schedule says at every step whether the launch path (\<open>True\<close>) or the kill path
  moves, and when it is used up or one side has ended, the rest follows.
\<close>

fun weave :: "bool list \<Rightarrow> 'a list \<Rightarrow> 'a list \<Rightarrow> 'a list" where
  "weave [] xs ys = xs @ ys"
| "weave (b # s) [] ys = ys"
| "weave (b # s) xs [] = xs"
| "weave (True # s) (x # xs) ys = x # weave s xs ys"
| "weave (False # s) xs (y # ys) = y # weave s xs ys"

text \<open>A launched task whose container is gone: the first listing of the watcher lacks
  it, and the stop and inspect calls of a kill find no such container.\<close>

definition world_gone :: world where
  "world_gone = world_kill_errors\<lparr>rounds := [round_absent]\<rparr>"

text \<open>The kill request arrives while \<^verbatim>\<open>failTask\<close> sleeps: the launch path goes as far
  as its sleep of one second, the kill path as far as its own, then each stops the
  driver.\<close>

definition kill_during_sleep :: "bool list" where
  "kill_during_sleep = replicate 16 True @ replicate 7 False @ [True, False]"

section \<open>Properties of the health check\<close>

lemmas prog_defs = bind_def seq_def emit_def ret_def panic_def

text \<open>
  C1. When the retry loop of \<^verbatim>\<open>sidecarStatus\<close> ends with a body and no error, the
  function returns an error exactly when the parsed body has the host named by
  \<^verbatim>\<open>TASK_HOST\<close>, under it the first twelve characters of the container identifier, and
  that entry's status is unhealthy or tombstoned; in every other case (the body does not
  parse, the host or the container is absent, any other status) it returns nil. The
  identifier has at least the twelve characters of its short form, as every identifier
  that \<^verbatim>\<open>LaunchTask\<close> hands to the watcher has.
\<close>

theorem sidecarStatus_error_iff:
  assumes "retryLoop (answers reg) 0 ('''', None) = (tr, Returned (data, None))"
    and "12 \<le> length (Container.ID container)"
  shows "\<exists>r. snd (sidecarStatus reg container) = Returned r \<and>
           (r \<noteq> None \<longleftrightarrow>
              unhealthy_entry (Unmarshal reg data) (Getenv (environ reg) ''TASK_HOST'')
                (take 12 (Container.ID container)))"
  using assms
  by (simp add: sidecarStatus_def unhealthy_entry_def prog_defs Let_def split: option.splits)

theorem sidecarStatus_error_iff_witness:
  "retryLoop (answers registry_unhealthy) 0 ('''', None) =
     ([HttpGet SidecarUrl, BodyClose, HttpGet SidecarUrl, BodyClose, HttpGet SidecarUrl,
       BodyClose, HttpGet SidecarUrl, BodyClose, HttpGet SidecarUrl, BodyClose],
      Returned (''{}'', None)) \<and>
   12 \<le> length (Container.ID container_abc) \<and>
   (\<exists>r. snd (sidecarStatus registry_unhealthy container_abc) = Returned r \<and> r \<noteq> None)"
proof -
  have a: "retryLoop (answers registry_unhealthy) 0 ('''', None) =
     ([HttpGet SidecarUrl, BodyClose, HttpGet SidecarUrl, BodyClose, HttpGet SidecarUrl,
       BodyClose, HttpGet SidecarUrl, BodyClose, HttpGet SidecarUrl, BodyClose],
      Returned (''{}'', None))"
    by (simp add: retryLoop.simps registry_unhealthy_def prog_defs SidecarRetryCount_def)
  have b: "12 \<le> length (Container.ID container_abc)"
    by (simp add: container_abc_def)
  have c: "unhealthy_entry (Unmarshal registry_unhealthy ''{}'')
             (Getenv (environ registry_unhealthy) ''TASK_HOST'')
             (take 12 (Container.ID container_abc))"
    by (simp add: unhealthy_entry_def registry_unhealthy_def Getenv_def container_abc_def)
  from sidecarStatus_error_iff [OF a b] c a b show ?thesis by blast
qed

text \<open>
  C2. A poll in which every fetch attempt fails should log the condition and return nil.
  With the endpoint unreachable, \<^verbatim>\<open>Get\<close> returns no response, and the first attempt
  panics at \<^verbatim>\<open>defer resp.Body.Close()\<close>: nothing is logged and nothing is returned.
\<close>

theorem sidecarStatus_registry_down:
  "sidecarStatus registry_down container_abc = ([HttpGet SidecarUrl], Panicked nil_dereference)"
  by (simp add: sidecarStatus_def registry_down_def retryLoop.simps prog_defs
      SidecarRetryCount_def)

text \<open>When every attempt fails with a response in hand (a body that cannot be read, a
  refused redirect), the poll does end as intended: one log line and nil.\<close>

lemma fetch_responded_error:
  "responded_error a \<Longrightarrow>
     \<exists>e. fetch a = ([HttpGet SidecarUrl, BodyClose], Returned ('''', Some e))"
  by (cases a) (simp_all add: responded_error_def)

lemma retryLoop_all_fail:
  "i < SidecarRetryCount \<Longrightarrow>
   (\<And>j. i \<le> j \<Longrightarrow> j < SidecarRetryCount \<Longrightarrow> responded_error (ans j)) \<Longrightarrow>
   \<exists>e. retryLoop ans i acc =
     (concat (replicate (SidecarRetryCount - i) [HttpGet SidecarUrl, BodyClose]),
      Returned ('''', Some e))"
proof (induction ans i acc rule: retryLoop.induct)
  case (1 ans i data err)
  from 1(3,4) obtain e
    where f: "fetch (ans i) = ([HttpGet SidecarUrl, BodyClose], Returned ('''', Some e))"
    using fetch_responded_error by (metis le_refl)
  have rep: "SidecarRetryCount - i = Suc (SidecarRetryCount - Suc i)"
    using 1(3) by simp
  show ?case
  proof (cases "Suc i < SidecarRetryCount")
    case True
    have "\<exists>e'. retryLoop ans (Suc i) ('''', Some e) =
      (concat (replicate (SidecarRetryCount - Suc i) [HttpGet SidecarUrl, BodyClose]),
       Returned ('''', Some e'))"
      using 1(1)[OF 1(3), of "Some e" "[]"] True 1(4) by auto
    then obtain e' where "retryLoop ans (Suc i) ('''', Some e) =
      (concat (replicate (SidecarRetryCount - Suc i) [HttpGet SidecarUrl, BodyClose]),
       Returned ('''', Some e'))" ..
    then show ?thesis
      using 1(3) f rep by (subst retryLoop.simps) (simp add: prog_defs)
  next
    case False
    then have z: "SidecarRetryCount - Suc i = 0"
      by simp
    have "retryLoop ans (Suc i) ('''', Some e) = ([], Returned ('''', Some e))"
      using False by (subst retryLoop.simps) (simp add: prog_defs)
    then show ?thesis
      using 1(3) f rep z by (subst retryLoop.simps) (simp add: prog_defs)
  qed
qed

lemma sidecarStatus_fails_open:
  assumes "\<And>j. j < SidecarRetryCount \<Longrightarrow> responded_error (answers reg j)"
  shows "sidecarStatus reg container =
     (concat (replicate SidecarRetryCount [HttpGet SidecarUrl, BodyClose])
        @ [Log ErrorLevel ''Can't contact Sidecar! Assuming healthy...''], Returned None)"
proof -
  have "0 < SidecarRetryCount"
    by (simp add: SidecarRetryCount_def)
  from retryLoop_all_fail [OF this, of "answers reg" "('''', None)"] assms
  obtain e where "retryLoop (answers reg) 0 ('''', None) =
     (concat (replicate SidecarRetryCount [HttpGet SidecarUrl, BodyClose]),
      Returned ('''', Some e))"
    by auto
  then show ?thesis
    by (simp add: sidecarStatus_def prog_defs)
qed

text \<open>
  C6. A poll should stop fetching at the first attempt that succeeds and wait a fixed
  delay between attempts. Here the first attempt succeeds and the four after it fail:
  the poll issues all five requests with no sleep between them, and its result is that
  of the last attempt (the endpoint counts as unreachable although the first answer
  reported the container unhealthy).
\<close>

theorem sidecarStatus_registry_flaky:
  "sidecarStatus registry_flaky container_abc =
     ([HttpGet SidecarUrl, BodyClose, HttpGet SidecarUrl, BodyClose, HttpGet SidecarUrl,
       BodyClose, HttpGet SidecarUrl, BodyClose, HttpGet SidecarUrl, BodyClose,
       Log ErrorLevel ''Can't contact Sidecar! Assuming healthy...''], Returned None)"
  by (simp add: sidecarStatus_def registry_flaky_def registry_unhealthy_def retryLoop.simps
      prog_defs SidecarRetryCount_def)

section \<open>Properties of the kill path\<close>

lemma fst_bind: "fst (bind m f) = fst m @ (case snd m of Returned a \<Rightarrow> fst (f a) | Panicked s \<Rightarrow> [])"
  by (cases m) (simp add: bind_def split: outcome.splits prod.splits)

lemma snd_bind: "snd (bind m f) = (case snd m of Returned a \<Rightarrow> snd (f a) | Panicked s \<Rightarrow> Panicked s)"
  by (cases m) (simp add: bind_def split: outcome.splits prod.splits)

lemma mesosStatus_simps [simp]:
  "mesosStatus TaskRunning = Some TASK_RUNNING"
  "mesosStatus TaskFinished = Some TASK_FINISHED"
  "mesosStatus TaskFailed = Some TASK_FAILED"
  "mesosStatus TaskKilled = Some TASK_KILLED"
  by (simp_all add: mesosStatus_def TaskRunning_def TaskFinished_def TaskFailed_def
      TaskKilled_def)

lemma sendStatus_delivered:
  "driver_send w \<lparr>TaskStatus.TaskId = tid, State = mesosStatus status\<rparr> = None \<Longrightarrow>
   sendStatus w status tid =
     ([SendStatusUpdate \<lparr>TaskStatus.TaskId = tid, State = mesosStatus status\<rparr>], Returned ())"
  by (simp add: sendStatus_def prog_defs)

lemma sendStatus_undelivered:
  "driver_send w \<lparr>TaskStatus.TaskId = tid, State = mesosStatus status\<rparr> = Some err \<Longrightarrow>
   sendStatus w status tid =
     ([SendStatusUpdate \<lparr>TaskStatus.TaskId = tid, State = mesosStatus status\<rparr>,
       Log ErrorLevel (''Error sending status update '' @ err)], Panicked err)"
  by (simp add: sendStatus_def prog_defs)

text \<open>
  C4. \<^verbatim>\<open>KillTask\<close> stops the container with the timeout \<^verbatim>\<open>KillTaskTimeout\<close>, inspects
  it, and reports Finished when the inspected exit code is 0 and Killed otherwise or when
  the inspection fails. These three calls are made whatever the stop and inspect calls
  answer, and the answer of the stop call changes nothing but a log line. What follows
  the report depends on the driver alone: when it accepts the report, the one-second
  sleep and the stop of the driver follow and the callback returns; when it refuses,
  \<^verbatim>\<open>sendStatus\<close> panics with the message of the refusal and no further call is made.
\<close>

theorem KillTask_stops_inspects_reports:
  "take 3 (calls (fst (KillTask w taskID))) =
     [StopContainer (Value taskID) KillTaskTimeout, InspectContainer (Value taskID),
      report taskID (killed_state (docker_inspect w))] \<and>
   (driver_send w (update taskID (killed_state (docker_inspect w))) = None \<longrightarrow>
      drop 3 (calls (fst (KillTask w taskID))) = [Sleep (1 * Second), DriverStop] \<and>
      snd (KillTask w taskID) = Returned ()) \<and>
   (\<forall>m. driver_send w (update taskID (killed_state (docker_inspect w))) = Some m \<longrightarrow>
      drop 3 (calls (fst (KillTask w taskID))) = [] \<and>
      snd (KillTask w taskID) = Panicked m) \<and>
   calls (fst (KillTask (w\<lparr>docker_stop := stopped\<rparr>) taskID)) = calls (fst (KillTask w taskID)) \<and>
   snd (KillTask (w\<lparr>docker_stop := stopped\<rparr>) taskID) = snd (KillTask w taskID)"
proof -
  have a: "take 3 (calls (fst (KillTask w taskID))) =
     [StopContainer (Value taskID) KillTaskTimeout, InspectContainer (Value taskID),
      report taskID (killed_state (docker_inspect w))] \<and>
   (driver_send w (update taskID (killed_state (docker_inspect w))) = None \<longrightarrow>
      drop 3 (calls (fst (KillTask w taskID))) = [Sleep (1 * Second), DriverStop] \<and>
      snd (KillTask w taskID) = Returned ()) \<and>
   (\<forall>m. driver_send w (update taskID (killed_state (docker_inspect w))) = Some m \<longrightarrow>
      drop 3 (calls (fst (KillTask w taskID))) = [] \<and>
      snd (KillTask w taskID) = Panicked m)"
    by (cases "docker_stop w"; cases "docker_inspect w";
        cases "driver_send w (update taskID (killed_state (docker_inspect w)))")
      (auto simp add: KillTask_def sendStatus_def prog_defs calls_def report_def update_def
        killed_state_def Let_def split: if_splits)
  have b: "calls (fst (KillTask (w\<lparr>docker_stop := stopped\<rparr>) taskID))
             = calls (fst (KillTask w taskID)) \<and>
           snd (KillTask (w\<lparr>docker_stop := stopped\<rparr>) taskID) = snd (KillTask w taskID)"
    by (cases "docker_stop w"; cases stopped)
      (simp_all add: KillTask_def sendStatus_def seq_def fst_bind snd_bind emit_def ret_def
        calls_def)
  from a b show ?thesis
    by blast
qed

theorem KillTask_stops_inspects_reports_witness:
  "driver_send world_kill_errors
     (update \<lparr>Value = ''task-1''\<rparr> (killed_state (docker_inspect world_kill_errors))) = None \<and>
   calls (fst (KillTask world_kill_errors \<lparr>Value = ''task-1''\<rparr>)) =
     [StopContainer ''task-1'' 5, InspectContainer ''task-1'',
      report \<lparr>Value = ''task-1''\<rparr> TASK_KILLED, Sleep (1 * Second), DriverStop] \<and>
   snd (KillTask world_kill_errors \<lparr>Value = ''task-1''\<rparr>) = Returned ()"
proof -
  have d: "driver_send world_kill_errors
     (update \<lparr>Value = ''task-1''\<rparr> (killed_state (docker_inspect world_kill_errors))) = None"
    by (simp add: world_kill_errors_def world_calm_def)
  have k: "killed_state (docker_inspect world_kill_errors) = TASK_KILLED"
    by (simp add: world_kill_errors_def world_calm_def killed_state_def)
  have t: "KillTaskTimeout = 5"
    by (simp add: KillTaskTimeout_def)
  from KillTask_stops_inspects_reports [of world_kill_errors "\<lparr>Value = ''task-1''\<rparr>"] d
  have "take 3 (calls (fst (KillTask world_kill_errors \<lparr>Value = ''task-1''\<rparr>))) =
          [StopContainer (Value \<lparr>Value = ''task-1''\<rparr>) KillTaskTimeout,
           InspectContainer (Value \<lparr>Value = ''task-1''\<rparr>),
           report \<lparr>Value = ''task-1''\<rparr> (killed_state (docker_inspect world_kill_errors))]"
    and "drop 3 (calls (fst (KillTask world_kill_errors \<lparr>Value = ''task-1''\<rparr>))) =
          [Sleep (1 * Second), DriverStop]"
    and r: "snd (KillTask world_kill_errors \<lparr>Value = ''task-1''\<rparr>) = Returned ()"
    by blast+
  then have "take 3 (calls (fst (KillTask world_kill_errors \<lparr>Value = ''task-1''\<rparr>))) @
        drop 3 (calls (fst (KillTask world_kill_errors \<lparr>Value = ''task-1''\<rparr>))) =
     [StopContainer ''task-1'' 5, InspectContainer ''task-1'',
      report \<lparr>Value = ''task-1''\<rparr> TASK_KILLED, Sleep (1 * Second), DriverStop]"
    by (simp only: k t TaskID.simps append.simps)
  with d r show ?thesis
    by simp
qed

text \<open>
  C10. The identifier that \<^verbatim>\<open>KillTask\<close> passes to the stop and inspect calls of the
  runtime is the value of the Mesos task identifier. The callback reads nothing that the
  launch produced (the answers to create and start and the rounds of the watcher make no
  difference to it), so the calls are aimed at a given container identifier exactly when
  the task identifier is that identifier.
\<close>

theorem KillTask_targets_task_id:
  "targets (fst (KillTask w taskID)) = [Value taskID, Value taskID] \<and>
   KillTask (w\<lparr>docker_create := c, docker_start := s, rounds := r\<rparr>) taskID = KillTask w taskID \<and>
   (set (targets (fst (KillTask w taskID))) = {Container.ID launched}) =
     (Value taskID = Container.ID launched)"
proof -
  have a: "targets (fst (KillTask w taskID)) = [Value taskID, Value taskID]"
    by (cases "docker_stop w"; cases "docker_inspect w";
        cases "driver_send w (update taskID (killed_state (docker_inspect w)))")
      (auto simp add: KillTask_def sendStatus_def prog_defs targets_def List.map_filter_simps
        update_def killed_state_def Let_def split: if_splits)
  have b: "KillTask (w\<lparr>docker_create := c, docker_start := s, rounds := r\<rparr>) taskID
             = KillTask w taskID"
    by (simp add: KillTask_def sendStatus_def)
  show ?thesis
    using a b by auto
qed

section \<open>Properties of the launch\<close>

lemma LaunchTask_begins:
  "\<exists>l1 l2 sfx. fst (LaunchTask w t) =
     [Log InfoLevel l1, Log InfoLevel l2, WriteFile ''/tmp/taskinfo.json'',
      report (TaskInfo.TaskId t) TASK_RUNNING] @ sfx"
  by (simp add: LaunchTask_def seq_def fst_bind emit_def sendStatus_def Let_def report_def
      update_def)

lemma launchedTask_begins:
  "\<exists>l1 l2 sfx. fst (launchedTask w t) =
     [Log InfoLevel l1, Log InfoLevel l2, WriteFile ''/tmp/taskinfo.json'',
      report (TaskInfo.TaskId t) TASK_RUNNING] @ sfx"
proof -
  obtain l1 l2 sfx where "fst (LaunchTask w t) =
     [Log InfoLevel l1, Log InfoLevel l2, WriteFile ''/tmp/taskinfo.json'',
      report (TaskInfo.TaskId t) TASK_RUNNING] @ sfx"
    using LaunchTask_begins by blast
  then show ?thesis
    by (simp add: launchedTask_def fst_bind)
qed

lemma before_report:
  assumes "tr = [Log InfoLevel l1, Log InfoLevel l2, WriteFile f, report tid st] @ sfx"
  shows "takeWhile (\<lambda>e. e \<noteq> report tid st) tr = [Log InfoLevel l1, Log InfoLevel l2, WriteFile f]"
  using assms by (simp add: report_def)

text \<open>
  C8. Every launch sends the Running report, and sends it before any create call and
  before any image pull: the report is among the events of \<^verbatim>\<open>LaunchTask\<close> (and of the
  whole run that follows it), what comes before it is two log lines and the writing of
  the task file, and so the events before it hold neither a create call nor a pull.
\<close>

theorem Running_precedes_create:
  "report (TaskInfo.TaskId t) TASK_RUNNING \<in> set (fst (LaunchTask w t)) \<and>
   report (TaskInfo.TaskId t) TASK_RUNNING \<in> set (fst (launchedTask w t)) \<and>
   calls (takeWhile (\<lambda>e. e \<noteq> report (TaskInfo.TaskId t) TASK_RUNNING)
            (fst (LaunchTask w t))) = [WriteFile ''/tmp/taskinfo.json''] \<and>
   calls (takeWhile (\<lambda>e. e \<noteq> report (TaskInfo.TaskId t) TASK_RUNNING)
            (fst (launchedTask w t))) = [WriteFile ''/tmp/taskinfo.json''] \<and>
   CreateContainer \<notin> set (takeWhile (\<lambda>e. e \<noteq> report (TaskInfo.TaskId t) TASK_RUNNING)
                            (fst (LaunchTask w t))) \<and>
   PullImage \<notin> set (takeWhile (\<lambda>e. e \<noteq> report (TaskInfo.TaskId t) TASK_RUNNING)
                      (fst (LaunchTask w t))) \<and>
   CreateContainer \<notin> set (takeWhile (\<lambda>e. e \<noteq> report (TaskInfo.TaskId t) TASK_RUNNING)
                            (fst (launchedTask w t))) \<and>
   PullImage \<notin> set (takeWhile (\<lambda>e. e \<noteq> report (TaskInfo.TaskId t) TASK_RUNNING)
                      (fst (launchedTask w t)))"
proof -
  obtain l1 l2 sfx where a: "fst (LaunchTask w t) =
     [Log InfoLevel l1, Log InfoLevel l2, WriteFile ''/tmp/taskinfo.json'',
      report (TaskInfo.TaskId t) TASK_RUNNING] @ sfx"
    using LaunchTask_begins by blast
  obtain k1 k2 sfx' where b: "fst (launchedTask w t) =
     [Log InfoLevel k1, Log InfoLevel k2, WriteFile ''/tmp/taskinfo.json'',
      report (TaskInfo.TaskId t) TASK_RUNNING] @ sfx'"
    using launchedTask_begins by blast
  have c: "report (TaskInfo.TaskId t) TASK_RUNNING \<in> set (fst (LaunchTask w t))"
    "report (TaskInfo.TaskId t) TASK_RUNNING \<in> set (fst (launchedTask w t))"
    by (simp_all add: a b)
  show ?thesis
    using c by (simp add: before_report [OF a] before_report [OF b] calls_def)
qed

text \<open>What \<^verbatim>\<open>failTask\<close> does, by the answer of the driver.\<close>

lemma failTask_delivered:
  "driver_send w (update (TaskInfo.TaskId t) TASK_FAILED) = None \<Longrightarrow>
   failTask w t = ([report (TaskInfo.TaskId t) TASK_FAILED, Sleep (1 * Second), DriverStop],
                   Returned ())"
  by (simp add: failTask_def sendStatus_def prog_defs report_def update_def)

lemma failTask_undelivered:
  "driver_send w (update (TaskInfo.TaskId t) TASK_FAILED) = Some err \<Longrightarrow>
   failTask w t = ([report (TaskInfo.TaskId t) TASK_FAILED,
                    Log ErrorLevel (''Error sending status update '' @ err)],
                   Panicked err)"
  by (simp add: failTask_def sendStatus_def prog_defs report_def update_def)

lemma failTask_calls:
  "calls (fst (failTask w t)) =
     report (TaskInfo.TaskId t) TASK_FAILED #
       (if driver_send w (update (TaskInfo.TaskId t) TASK_FAILED) = None
        then [Sleep (1 * Second), DriverStop] else [])"
  by (cases "driver_send w (update (TaskInfo.TaskId t) TASK_FAILED)")
    (simp_all add: failTask_delivered failTask_undelivered calls_def report_def)

text \<open>The paths through \<^verbatim>\<open>LaunchTask\<close>, one lemma each.\<close>

lemma forcePull_cases:
  "forcePull t = ([], Panicked nil_dereference) \<or> (\<exists>b. forcePull t = ([], Returned b))"
  by (simp add: forcePull_def prog_defs split: option.splits)

lemma fst_sendStatus_delivered:
  "driver_send w (update tid st) = None \<Longrightarrow> mesosStatus n = Some st \<Longrightarrow>
   fst (sendStatus w n tid) = [report tid st] \<and> snd (sendStatus w n tid) = Returned ()"
  by (simp add: sendStatus_def prog_defs report_def update_def)

lemma fst_sendStatus_undelivered:
  "driver_send w (update tid st) = Some e \<Longrightarrow> mesosStatus n = Some st \<Longrightarrow>
   fst (sendStatus w n tid) =
     [report tid st, Log ErrorLevel (''Error sending status update '' @ e)] \<and>
   snd (sendStatus w n tid) = Panicked e"
  by (simp add: sendStatus_def prog_defs report_def update_def)

lemma LaunchTask_undelivered:
  assumes "driver_send w (update (TaskInfo.TaskId t) TASK_RUNNING) = Some e"
  shows "\<exists>l1 l2 f l3. LaunchTask w t =
           ([Log InfoLevel l1, Log InfoLevel l2, WriteFile f,
             report (TaskInfo.TaskId t) TASK_RUNNING, Log ErrorLevel l3], Panicked e)"
  using fst_sendStatus_undelivered [OF assms, of TaskRunning]
  by (simp add: LaunchTask_def seq_def fst_bind snd_bind emit_def prod_eq_iff)

lemma LaunchTask_no_pull_flag:
  assumes "driver_send w (update (TaskInfo.TaskId t) TASK_RUNNING) = None"
    and "forcePull t = ([], Panicked m)"
  shows "\<exists>l1 l2 f. LaunchTask w t =
           ([Log InfoLevel l1, Log InfoLevel l2, WriteFile f,
             report (TaskInfo.TaskId t) TASK_RUNNING], Panicked m)"
  using fst_sendStatus_delivered [OF assms(1), of TaskRunning] assms(2)
  by (simp add: LaunchTask_def seq_def fst_bind snd_bind emit_def prod_eq_iff)

lemma LaunchTask_create_refused:
  assumes "driver_send w (update (TaskInfo.TaskId t) TASK_RUNNING) = None"
    and "forcePull t = ([], Returned b)"
    and "docker_create w = Inl err"
  shows "\<exists>l1 l2 f l3. fst (LaunchTask w t) =
           [Log InfoLevel l1, Log InfoLevel l2, WriteFile f,
            report (TaskInfo.TaskId t) TASK_RUNNING] @ (if b then [PullImage] else []) @
           [CreateContainer, Log ErrorLevel l3] @ fst (failTask w t)"
    and "snd (LaunchTask w t) =
           (case snd (failTask w t) of Returned u \<Rightarrow> Returned None | Panicked m \<Rightarrow> Panicked m)"
  using fst_sendStatus_delivered [OF assms(1), of TaskRunning] assms(2,3)
  by (simp_all add: LaunchTask_def seq_def fst_bind snd_bind emit_def ret_def
      split: outcome.splits)

lemma LaunchTask_short_id:
  assumes "driver_send w (update (TaskInfo.TaskId t) TASK_RUNNING) = None"
    and "forcePull t = ([], Returned b)"
    and "docker_create w = Inr c" and "length (Container.ID c) < 12"
  shows "\<exists>l1 l2 f. LaunchTask w t =
           ([Log InfoLevel l1, Log InfoLevel l2, WriteFile f,
             report (TaskInfo.TaskId t) TASK_RUNNING] @ (if b then [PullImage] else []) @
            [CreateContainer], Panicked slice_out_of_range)"
  using fst_sendStatus_delivered [OF assms(1), of TaskRunning] assms(2,3,4)
  by (simp add: LaunchTask_def seq_def fst_bind snd_bind emit_def ret_def panic_def
      prod_eq_iff)

lemma LaunchTask_start_refused:
  assumes "driver_send w (update (TaskInfo.TaskId t) TASK_RUNNING) = None"
    and "forcePull t = ([], Returned b)"
    and "docker_create w = Inr c" and "12 \<le> length (Container.ID c)"
    and "docker_start w = Some err"
  shows "\<exists>l1 l2 f l3 l4. fst (LaunchTask w t) =
           [Log InfoLevel l1, Log InfoLevel l2, WriteFile f,
            report (TaskInfo.TaskId t) TASK_RUNNING] @ (if b then [PullImage] else []) @
           [CreateContainer, Log InfoLevel l3, StartContainer (Container.ID c),
            Log ErrorLevel l4] @ fst (failTask w t)"
    and "snd (LaunchTask w t) =
           (case snd (failTask w t) of Returned u \<Rightarrow> Returned None | Panicked m \<Rightarrow> Panicked m)"
  using fst_sendStatus_delivered [OF assms(1), of TaskRunning] assms(2,3,4,5)
  by (simp_all add: LaunchTask_def seq_def fst_bind snd_bind emit_def ret_def
      split: outcome.splits)

lemma LaunchTask_started:
  assumes "driver_send w (update (TaskInfo.TaskId t) TASK_RUNNING) = None"
    and "forcePull t = ([], Returned b)"
    and "docker_create w = Inr c" and "12 \<le> length (Container.ID c)"
    and "docker_start w = None"
  shows "\<exists>l1 l2 f l3. LaunchTask w t =
           ([Log InfoLevel l1, Log InfoLevel l2, WriteFile f,
             report (TaskInfo.TaskId t) TASK_RUNNING] @ (if b then [PullImage] else []) @
            [CreateContainer, Log InfoLevel l3, StartContainer (Container.ID c),
             Go WatchContainer, Go AwaitLooper], Returned (Some c))"
  using fst_sendStatus_delivered [OF assms(1), of TaskRunning] assms(2,3,4,5)
  by (simp add: LaunchTask_def seq_def fst_bind snd_bind emit_def ret_def prod_eq_iff)


lemma LaunchTask_paths:
  obtains
    (undelivered) l1 l2 f l3 e where
      "LaunchTask w t =
         ([Log InfoLevel l1, Log InfoLevel l2, WriteFile f,
           report (TaskInfo.TaskId t) TASK_RUNNING, Log ErrorLevel l3], Panicked e)"
  | (no_pull_flag) l1 l2 f m where
      "LaunchTask w t =
         ([Log InfoLevel l1, Log InfoLevel l2, WriteFile f,
           report (TaskInfo.TaskId t) TASK_RUNNING], Panicked m)"
  | (create_refused) l1 l2 f l3 b err where
      "docker_create w = Inl err"
      "fst (LaunchTask w t) =
         [Log InfoLevel l1, Log InfoLevel l2, WriteFile f,
          report (TaskInfo.TaskId t) TASK_RUNNING] @ (if b then [PullImage] else []) @
         [CreateContainer, Log ErrorLevel l3] @ fst (failTask w t)"
      "snd (LaunchTask w t) =
         (case snd (failTask w t) of Returned u \<Rightarrow> Returned None | Panicked m \<Rightarrow> Panicked m)"
  | (short_id) l1 l2 f b c where
      "docker_create w = Inr c"
      "LaunchTask w t =
         ([Log InfoLevel l1, Log InfoLevel l2, WriteFile f,
           report (TaskInfo.TaskId t) TASK_RUNNING] @ (if b then [PullImage] else []) @
          [CreateContainer], Panicked slice_out_of_range)"
  | (start_refused) l1 l2 f l3 l4 b c err where
      "docker_create w = Inr c" "docker_start w = Some err"
      "fst (LaunchTask w t) =
         [Log InfoLevel l1, Log InfoLevel l2, WriteFile f,
          report (TaskInfo.TaskId t) TASK_RUNNING] @ (if b then [PullImage] else []) @
         [CreateContainer, Log InfoLevel l3, StartContainer (Container.ID c),
          Log ErrorLevel l4] @ fst (failTask w t)"
      "snd (LaunchTask w t) =
         (case snd (failTask w t) of Returned u \<Rightarrow> Returned None | Panicked m \<Rightarrow> Panicked m)"
  | (started) l1 l2 f l3 b c where
      "docker_create w = Inr c" "docker_start w = None" "12 \<le> length (Container.ID c)"
      "LaunchTask w t =
         ([Log InfoLevel l1, Log InfoLevel l2, WriteFile f,
           report (TaskInfo.TaskId t) TASK_RUNNING] @ (if b then [PullImage] else []) @
          [CreateContainer, Log InfoLevel l3, StartContainer (Container.ID c),
           Go WatchContainer, Go AwaitLooper], Returned (Some c))"
proof (cases "driver_send w (update (TaskInfo.TaskId t) TASK_RUNNING)")
  case (Some e)
  from LaunchTask_undelivered [OF this] undelivered show ?thesis
    by blast
next
  case None
  from forcePull_cases [of t] show ?thesis
  proof
    assume "forcePull t = ([], Panicked nil_dereference)"
    from LaunchTask_no_pull_flag [OF None this] no_pull_flag show ?thesis
      by blast
  next
    assume "\<exists>b. forcePull t = ([], Returned b)"
    then obtain b where b: "forcePull t = ([], Returned b)" ..
    show ?thesis
    proof (cases "docker_create w")
      case (Inl err)
      from LaunchTask_create_refused [OF None b Inl] create_refused [OF Inl] show ?thesis
        by blast
    next
      case (Inr c)
      show ?thesis
      proof (cases "length (Container.ID c) < 12")
        case True
        from LaunchTask_short_id [OF None b Inr True] short_id [OF Inr] show ?thesis
          by blast
      next
        case False
        then have long: "12 \<le> length (Container.ID c)"
          by simp
        show ?thesis
        proof (cases "docker_start w")
          case (Some err)
          from LaunchTask_start_refused [OF None b Inr long Some] start_refused [OF Inr Some]
          show ?thesis
            by blast
        next
          case None': None
          from LaunchTask_started [OF None b Inr long None'] started [OF Inr None' long]
          show ?thesis
            by blast
        qed
      qed
    qed
  qed
qed

lemma failTask_paths:
  obtains
    (delivered) "failTask w t =
      ([report (TaskInfo.TaskId t) TASK_FAILED, Sleep (1 * Second), DriverStop], Returned ())"
  | (undelivered) l e where "failTask w t =
      ([report (TaskInfo.TaskId t) TASK_FAILED, Log ErrorLevel l], Panicked e)"
  using failTask_delivered [of w t] failTask_undelivered [of w t]
  by (cases "driver_send w (update (TaskInfo.TaskId t) TASK_FAILED)") auto

lemma launchedTask_not_started:
  assumes "\<And>c. snd (LaunchTask w t) \<noteq> Returned (Some c)"
  shows "fst (launchedTask w t) = fst (LaunchTask w t)"
  using assms
  by (cases "snd (LaunchTask w t)")
    (simp_all add: launchedTask_def fst_bind ret_def split: option.splits)

text \<open>
  C7. When the create call of a launch is made and refused, or its start call is made and
  refused, the task is reported Failed, the refused call is not made again (the run
  holds one create call and at most one start call), no goroutine is started (neither
  the watcher, nor the one waiting for it, nor a log relay) and no listing is asked
  for: the run ends inside \<^verbatim>\<open>LaunchTask\<close>.
\<close>

theorem refused_launch_fails_task:
  assumes "(CreateContainer \<in> set (fst (LaunchTask w t)) \<and> docker_create w = Inl err) \<or>
           ((\<exists>i. StartContainer i \<in> set (fst (LaunchTask w t))) \<and> docker_start w = Some err)"
  shows "report (TaskInfo.TaskId t) TASK_FAILED \<in> set (fst (launchedTask w t)) \<and>
         length (filter (\<lambda>e. e = CreateContainer) (fst (launchedTask w t))) = 1 \<and>
         length (filter is_start (fst (launchedTask w t))) \<le> 1 \<and>
         filter is_go (fst (launchedTask w t)) = [] \<and>
         ListContainers True \<notin> set (fst (launchedTask w t)) \<and>
         fst (launchedTask w t) = fst (LaunchTask w t)"
proof (cases rule: LaunchTask_paths [of w t])
  case (undelivered l1 l2 f l3 e)
  with assms show ?thesis
    by (auto simp add: report_def)
next
  case (no_pull_flag l1 l2 f m)
  with assms show ?thesis
    by (auto simp add: report_def)
next
  case (create_refused l1 l2 f l3 b err')
  from create_refused(3) have "\<And>c. snd (LaunchTask w t) \<noteq> Returned (Some c)"
    by (simp split: outcome.splits)
  then have same: "fst (launchedTask w t) = fst (LaunchTask w t)"
    by (rule launchedTask_not_started)
  show ?thesis
    by (cases rule: failTask_paths [of w t])
      (simp_all add: same create_refused(2) report_def)
next
  case (short_id l1 l2 f b c)
  with assms show ?thesis
    by (auto simp add: report_def split: if_splits)
next
  case (start_refused l1 l2 f l3 l4 b c err')
  from start_refused(4) have "\<And>c. snd (LaunchTask w t) \<noteq> Returned (Some c)"
    by (simp split: outcome.splits)
  then have same: "fst (launchedTask w t) = fst (LaunchTask w t)"
    by (rule launchedTask_not_started)
  show ?thesis
    by (cases rule: failTask_paths [of w t])
      (simp_all add: same start_refused(3) report_def)
next
  case (started l1 l2 f l3 b c)
  with assms show ?thesis
    by auto
qed

theorem refused_launch_fails_task_witness:
  "CreateContainer \<in> set (fst (LaunchTask world_create_fails task_1)) \<and>
   docker_create world_create_fails = Inl ''no such image'' \<and>
   report \<lparr>Value = ''task-1''\<rparr> TASK_FAILED \<in> set (fst (launchedTask world_create_fails task_1)) \<and>
   length (filter (\<lambda>e. e = CreateContainer) (fst (launchedTask world_create_fails task_1))) = 1 \<and>
   filter is_go (fst (launchedTask world_create_fails task_1)) = [] \<and>
   StartContainer ''abc123456789abcdef'' \<in> set (fst (LaunchTask world_start_fails task_1)) \<and>
   docker_start world_start_fails = Some ''port is already allocated'' \<and>
   report \<lparr>Value = ''task-1''\<rparr> TASK_FAILED \<in> set (fst (launchedTask world_start_fails task_1)) \<and>
   length (filter is_start (fst (launchedTask world_start_fails task_1))) \<le> 1 \<and>
   filter is_go (fst (launchedTask world_start_fails task_1)) = []"
proof -
  have a': "StartContainer ''abc123456789abcdef'' \<in> set (fst (LaunchTask world_start_fails task_1))"
    by (simp add: LaunchTask_def failTask_def sendStatus_def forcePull_def prog_defs Let_def
        world_start_fails_def world_calm_def task_1_def container_abc_def)
  have b': "docker_start world_start_fails = Some ''port is already allocated''"
    by (simp add: world_start_fails_def)
  from a' have a'': "\<exists>i. StartContainer i \<in> set (fst (LaunchTask world_start_fails task_1))"
    by blast
  have s: "report (TaskInfo.TaskId task_1) TASK_FAILED
             \<in> set (fst (launchedTask world_start_fails task_1)) \<and>
           length (filter is_start (fst (launchedTask world_start_fails task_1))) \<le> 1 \<and>
           filter is_go (fst (launchedTask world_start_fails task_1)) = []"
    using refused_launch_fails_task [of world_start_fails task_1 "''port is already allocated''"]
      a'' b'
    by blast
  have a: "CreateContainer \<in> set (fst (LaunchTask world_create_fails task_1))"
    by (simp add: LaunchTask_def failTask_def sendStatus_def forcePull_def prog_defs Let_def
        world_create_fails_def world_calm_def task_1_def)
  have b: "docker_create world_create_fails = Inl ''no such image''"
    by (simp add: world_create_fails_def)
  have c: "TaskInfo.TaskId task_1 = \<lparr>Value = ''task-1''\<rparr>"
    by (simp add: task_1_def)
  from refused_launch_fails_task [of world_create_fails task_1 "''no such image''"]
    a b
  have "report (TaskInfo.TaskId task_1) TASK_FAILED
          \<in> set (fst (launchedTask world_create_fails task_1)) \<and>
        length (filter (\<lambda>e. e = CreateContainer)
                 (fst (launchedTask world_create_fails task_1))) = 1 \<and>
        filter is_go (fst (launchedTask world_create_fails task_1)) = []"
    by blast
  with s a b a' b' show ?thesis
    by (simp only: c)
qed

section \<open>Properties of the watcher\<close>

lemma fetch_events: "set (fst (fetch a)) \<subseteq> {HttpGet SidecarUrl, BodyClose}"
  by (cases a) auto

lemma retryLoop_events: "set (fst (retryLoop ans i acc)) \<subseteq> {HttpGet SidecarUrl, BodyClose}"
proof (induction ans i acc rule: retryLoop.induct)
  case (1 ans i data err)
  show ?case
  proof (cases "i < SidecarRetryCount")
    case False
    then show ?thesis
      by (subst retryLoop.simps) (simp add: ret_def)
  next
    case True
    show ?thesis
    proof (cases "fetch (ans i)")
      case (Pair tr r)
      with fetch_events [of "ans i"] have tr: "set tr \<subseteq> {HttpGet SidecarUrl, BodyClose}"
        by simp
      show ?thesis
      proof (cases r)
        case (Panicked m)
        with Pair True tr show ?thesis
          by (subst retryLoop.simps) (simp add: bind_def)
      next
        case (Returned p)
        obtain d e where p: "p = (d, e)"
          by (cases p)
        have ih: "set (fst (retryLoop ans (Suc i) (d, e))) \<subseteq> {HttpGet SidecarUrl, BodyClose}"
          using 1(1) [OF True, of e d] 1(2) [OF True, of e d] by (cases e) auto
        with Pair True tr Returned p show ?thesis
          by (subst retryLoop.simps) (auto simp add: bind_def split: prod.splits)
      qed
    qed
  qed
qed

lemma sidecarStatus_events:
  "set (fst (sidecarStatus reg c)) \<subseteq> {HttpGet SidecarUrl, BodyClose} \<union> range (Log ErrorLevel)"
proof (cases "retryLoop (answers reg) 0 ('''', None)")
  case (Pair tr r)
  with retryLoop_events [of "answers reg" 0 "('''', None)"]
  have tr: "set tr \<subseteq> {HttpGet SidecarUrl, BodyClose}"
    by simp
  show ?thesis
  proof (cases r)
    case (Panicked m)
    with Pair tr show ?thesis
      by (auto simp add: sidecarStatus_def bind_def)
  next
    case (Returned p)
    obtain d e where p: "p = (d, e)"
      by (cases p)
    from Pair tr Returned p show ?thesis
      by (auto simp add: sidecarStatus_def prog_defs Let_def split: option.splits)
  qed
qed

lemma sidecarStatus_error:
  assumes "snd (sidecarStatus reg c) = Returned (Some e)"
  shows "e = ErrorsNew (''Unhealthy container: '' @ Container.ID c @ '' failing task!'')"
proof (cases "retryLoop (answers reg) 0 ('''', None)")
  case (Pair tr r)
  show ?thesis
  proof (cases r)
    case (Panicked m)
    with Pair assms show ?thesis
      by (simp add: sidecarStatus_def bind_def)
  next
    case (Returned p)
    obtain d e' where p: "p = (d, e')"
      by (cases p)
    from Pair assms Returned p show ?thesis
      by (auto simp add: sidecarStatus_def prog_defs Let_def split: option.splits if_splits)
  qed
qed

lemma listed_foldl:
  "foldl (\<lambda>ok entry. if APIContainers.ID entry = i then True else ok) b cs
     = (b \<or> i \<in> APIContainers.ID ` set cs)"
  by (induction cs arbitrary: b) auto

lemma watchRound_absent:
  assumes "Listing obs = Inr cs" and "Container.ID c \<notin> APIContainers.ID ` set cs"
  shows "watchRound c obs = ([ListContainers True], Returned (Some (not_running c)))"
  using assms by (simp add: watchRound_def listed_foldl prog_defs not_running_def)

lemma watchRound_unlisted:
  assumes "Listing obs = Inl err"
  shows "watchRound c obs = ([ListContainers True], Returned (Some (DockerError err)))"
  using assms by (simp add: watchRound_def prog_defs)

lemma watchRound_present:
  assumes "Listing obs = Inr cs" and "Container.ID c \<in> APIContainers.ID ` set cs"
  shows "fst (watchRound c obs) = ListContainers True # fst (sidecarStatus (Sidecar obs) c)"
    and "snd (watchRound c obs) = snd (sidecarStatus (Sidecar obs) c)"
  using assms
  by (auto simp add: watchRound_def listed_foldl seq_def fst_bind snd_bind emit_def ret_def
      split: outcome.splits)

lemma watchRound_events:
  "set (fst (watchRound c obs)) \<subseteq>
     {ListContainers True, HttpGet SidecarUrl, BodyClose} \<union> range (Log ErrorLevel)"
proof (cases "Listing obs")
  case (Inl err)
  then show ?thesis
    by (simp add: watchRound_unlisted)
next
  case (Inr cs)
  show ?thesis
  proof (cases "Container.ID c \<in> APIContainers.ID ` set cs")
    case True
    from watchRound_present(1) [OF Inr True] sidecarStatus_events [of "Sidecar obs" c]
    show ?thesis
      by auto
  next
    case False
    from watchRound_absent [OF Inr False] show ?thesis
      by simp
  qed
qed

lemma watchRound_not_running_iff:
  "snd (watchRound c obs) = Returned (Some (not_running c)) \<longleftrightarrow>
     (\<exists>cs. Listing obs = Inr cs \<and> Container.ID c \<notin> APIContainers.ID ` set cs)"
proof (cases "Listing obs")
  case (Inl err)
  then show ?thesis
    by (simp add: watchRound_unlisted not_running_def)
next
  case (Inr cs)
  show ?thesis
  proof (cases "Container.ID c \<in> APIContainers.ID ` set cs")
    case True
    have "snd (sidecarStatus (Sidecar obs) c) \<noteq> Returned (Some (not_running c))"
      using sidecarStatus_error [of "Sidecar obs" c "not_running c"]
      by (auto simp add: not_running_def)
    with watchRound_present(2) [OF Inr True] Inr True show ?thesis
      by simp
  next
    case False
    from watchRound_absent [OF Inr False] Inr False show ?thesis
      by simp
  qed
qed

text \<open>The looper: it stops at the first round that returns an error, and the rounds
  after that one are not run.\<close>

lemma Loop_stops:
  assumes "\<forall>ob \<in> set pre. snd (fn ob) = Returned None" and "snd (fn x) = Returned (Some e)"
  shows "snd (Loop fn d (pre @ x # post)) = Returned (Done (Some e))"
    and "Loop fn d (pre @ x # post) = Loop fn d (pre @ [x])"
  using assms
  by (induction pre) (simp_all add: seq_def fst_bind snd_bind prod_eq_iff emit_def ret_def)

lemma Loop_events:
  assumes "\<And>ob. set (fst (fn ob)) \<subseteq> E"
  shows "set (fst (Loop fn d obs)) \<subseteq> insert (Tick d) E"
proof (induction obs)
  case Nil
  show ?case
    by (simp add: ret_def)
next
  case (Cons ob obs)
  from assms [of ob] Cons show ?case
    by (auto simp add: seq_def fst_bind emit_def ret_def split: outcome.splits)
qed

lemma Loop_outcome:
  "snd (Loop fn d obs) = Returned (Done None) \<Longrightarrow> False"
  by (induction obs)
    (auto simp add: seq_def snd_bind emit_def ret_def split: outcome.splits if_splits)

lemma watchContainer_events:
  "set (fst (watchContainer w c)) \<subseteq>
     {Sleep SidecarBackoff, Tick (3 * Second), ListContainers True, HttpGet SidecarUrl,
      BodyClose} \<union> range (Log ErrorLevel)"
  using Loop_events [of "watchRound c" _ "3 * Second" "rounds w", OF watchRound_events]
  by (auto simp add: watchContainer_def seq_def fst_bind emit_def split: outcome.splits)

text \<open>The run after a launch that started its container, by the way the watcher ends.\<close>

lemma watchContainer_never_clean: "snd (watchContainer w c) \<noteq> Returned (Done None)"
  using Loop_outcome [of "watchRound c" "3 * Second" "rounds w"]
  by (auto simp add: watchContainer_def seq_def snd_bind emit_def)

lemma launchedTask_watch_error:
  assumes "LaunchTask w t = (tr0, Returned (Some c))"
    and "snd (watchContainer w c) = Returned (Done (Some e))"
  shows "\<exists>l1 l2. fst (launchedTask w t) =
           tr0 @ [Log InfoLevel l1] @ fst (watchContainer w c) @ [Log ErrorLevel l2]
             @ fst (failTask w t)"
    and "snd (launchedTask w t) =
           (case snd (failTask w t) of Returned u \<Rightarrow> Returned Ended | Panicked m \<Rightarrow> Panicked m)"
  using assms
  by (simp_all add: launchedTask_def awaitLooper_def seq_def fst_bind snd_bind emit_def ret_def
      split: outcome.splits)

lemma launchedTask_watch_looping:
  assumes "LaunchTask w t = (tr0, Returned (Some c))"
    and "snd (watchContainer w c) = Returned Looping"
  shows "\<exists>l1. fst (launchedTask w t) = tr0 @ [Log InfoLevel l1] @ fst (watchContainer w c)"
    and "snd (launchedTask w t) = Returned StillRunning"
  using assms
  by (simp_all add: launchedTask_def seq_def fst_bind snd_bind emit_def ret_def)

lemma launchedTask_watch_panic:
  assumes "LaunchTask w t = (tr0, Returned (Some c))"
    and "snd (watchContainer w c) = Panicked m"
  shows "\<exists>l1. fst (launchedTask w t) = tr0 @ [Log InfoLevel l1] @ fst (watchContainer w c)"
    and "snd (launchedTask w t) = Panicked m"
  using assms
  by (simp_all add: launchedTask_def seq_def fst_bind snd_bind emit_def ret_def)

text \<open>
  C5. A round of the watcher asks the runtime for the listing of all containers and ends
  with the error "not running" exactly when the listing came and the identifier of the
  container is not in it; whether a listed container still runs plays no part. When,
  after a launch that started the container, such a round follows rounds without
  error, the loop stops with that error, the rounds after it are not run, the task is
  reported Failed, and the run is over.
\<close>

theorem missing_container_fails_task:
  "(\<exists>evs. fst (watchRound c obs) = ListContainers True # evs) \<and>
   (snd (watchRound c obs) = Returned (Some (not_running c)) \<longleftrightarrow>
      (\<exists>cs. Listing obs = Inr cs \<and> Container.ID c \<notin> APIContainers.ID ` set cs)) \<and>
   (LaunchTask w t = (tr0, Returned (Some c)) \<and> rounds w = pre @ obs # post \<and>
    (\<forall>ob \<in> set pre. snd (watchRound c ob) = Returned None) \<and>
    Listing obs = Inr cs \<and> Container.ID c \<notin> APIContainers.ID ` set cs \<longrightarrow>
      snd (watchContainer w c) = Returned (Done (Some (not_running c))) \<and>
      watchContainer w c = watchContainer (w\<lparr>rounds := pre @ [obs]\<rparr>) c \<and>
      report (TaskInfo.TaskId t) TASK_FAILED \<in> set (fst (launchedTask w t)) \<and>
      snd (launchedTask w t) \<noteq> Returned StillRunning)"
proof (intro conjI impI)
  show "\<exists>evs. fst (watchRound c obs) = ListContainers True # evs"
    by (simp add: watchRound_def seq_def fst_bind emit_def)
next
  show "snd (watchRound c obs) = Returned (Some (not_running c)) \<longleftrightarrow>
      (\<exists>cs. Listing obs = Inr cs \<and> Container.ID c \<notin> APIContainers.ID ` set cs)"
    by (rule watchRound_not_running_iff)
next
  assume h: "LaunchTask w t = (tr0, Returned (Some c)) \<and> rounds w = pre @ obs # post \<and>
    (\<forall>ob \<in> set pre. snd (watchRound c ob) = Returned None) \<and>
    Listing obs = Inr cs \<and> Container.ID c \<notin> APIContainers.ID ` set cs"
  then have launched: "LaunchTask w t = (tr0, Returned (Some c))"
    and rs: "rounds w = pre @ obs # post"
    and pre: "\<forall>ob \<in> set pre. snd (watchRound c ob) = Returned None"
    and absent: "Listing obs = Inr cs" "Container.ID c \<notin> APIContainers.ID ` set cs"
    by simp_all
  from watchRound_absent [OF absent]
  have r: "snd (watchRound c obs) = Returned (Some (not_running c))"
    by simp
  show stopped: "snd (watchContainer w c) = Returned (Done (Some (not_running c)))"
    using Loop_stops(1) [OF pre r, of "3 * Second" post] rs
    by (simp add: watchContainer_def seq_def snd_bind emit_def)
  show "watchContainer w c = watchContainer (w\<lparr>rounds := pre @ [obs]\<rparr>) c"
    using Loop_stops(2) [OF pre r, of "3 * Second" post] rs
    by (simp add: watchContainer_def)
  from launchedTask_watch_error(1) [OF launched stopped]
  show "report (TaskInfo.TaskId t) TASK_FAILED \<in> set (fst (launchedTask w t))"
    by (cases rule: failTask_paths [of w t]) auto
  from launchedTask_watch_error(2) [OF launched stopped]
  show "snd (launchedTask w t) \<noteq> Returned StillRunning"
    by (simp split: outcome.splits)
qed

theorem missing_container_fails_task_witness:
  "(\<exists>tr0. LaunchTask world_absent task_1 = (tr0, Returned (Some container_abc))) \<and>
   rounds world_absent = [] @ round_absent # [] \<and>
   Listing round_absent = Inr [\<lparr>APIContainers.ID = ''0123456789abcdef''\<rparr>] \<and>
   Container.ID container_abc \<notin>
     APIContainers.ID ` set [\<lparr>APIContainers.ID = ''0123456789abcdef''\<rparr>] \<and>
   snd (watchContainer world_absent container_abc) =
     Returned (Done (Some (not_running container_abc))) \<and>
   report \<lparr>Value = ''task-1''\<rparr> TASK_FAILED \<in> set (fst (launchedTask world_absent task_1)) \<and>
   snd (launchedTask world_absent task_1) \<noteq> Returned StillRunning"
proof -
  have a: "\<exists>tr0. LaunchTask world_absent task_1 = (tr0, Returned (Some container_abc))"
    using LaunchTask_started [of world_absent task_1 True container_abc]
    by (auto simp add: world_absent_def world_calm_def task_1_def forcePull_def ret_def
        container_abc_def)
  then obtain tr0 where l: "LaunchTask world_absent task_1 = (tr0, Returned (Some container_abc))" ..
  have b: "rounds world_absent = [] @ round_absent # []"
    by (simp add: world_absent_def)
  have c: "Listing round_absent = Inr [\<lparr>APIContainers.ID = ''0123456789abcdef''\<rparr>]"
    by (simp add: round_absent_def)
  have d: "Container.ID container_abc \<notin>
     APIContainers.ID ` set [\<lparr>APIContainers.ID = ''0123456789abcdef''\<rparr>]"
    by (simp add: container_abc_def)
  have e: "TaskInfo.TaskId task_1 = \<lparr>Value = ''task-1''\<rparr>"
    by (simp add: task_1_def)
  have p: "\<forall>ob \<in> set []. snd (watchRound container_abc ob) = Returned None"
    by simp
  from missing_container_fails_task [of container_abc round_absent world_absent task_1 tr0
      "[]" "[]" "[\<lparr>APIContainers.ID = ''0123456789abcdef''\<rparr>]"] l b c d p
  have "snd (watchContainer world_absent container_abc) =
     Returned (Done (Some (not_running container_abc))) \<and>
   report (TaskInfo.TaskId task_1) TASK_FAILED \<in> set (fst (launchedTask world_absent task_1)) \<and>
   snd (launchedTask world_absent task_1) \<noteq> Returned StillRunning"
    by blast
  with a b c d e show ?thesis
    by simp
qed

section \<open>Properties of a whole run\<close>

lemma orderly_calm:
  assumes "\<forall>e \<in> set tr. \<not> terminal_report e \<and> e \<noteq> DriverStop"
  shows "orderly tr" and "filter terminal_report tr = []"
proof -
  from assms have tw: "takeWhile (\<lambda>e. \<not> terminal_report e) tr = tr"
    and dw: "dropWhile (\<lambda>e. \<not> terminal_report e) tr = []"
    by (simp_all add: takeWhile_eq_all_conv)
  from assms show "orderly tr"
    by (auto simp add: orderly_def tw dw)
  from assms show "filter terminal_report tr = []"
    by (simp add: filter_empty_conv)
qed

lemma log_is_calm: "is_log e \<Longrightarrow> \<not> is_report e \<and> \<not> terminal_report e \<and> e \<noteq> DriverStop"
  by (cases e) simp_all

lemma orderly_closing:
  assumes "\<forall>e \<in> set pre. \<not> terminal_report e \<and> e \<noteq> DriverStop"
    and "terminal_report r" and "\<forall>e \<in> set logs. is_log e"
  shows "orderly (pre @ r # logs)"
    and "orderly (pre @ r # Sleep (1 * Second) # DriverStop # logs)"
    and "length (filter terminal_report (pre @ r # logs)) = 1"
    and "length (filter terminal_report (pre @ r # Sleep (1 * Second) # DriverStop # logs)) = 1"
proof -
  have t: "\<And>ys. takeWhile (\<lambda>e. \<not> terminal_report e) (pre @ r # ys) = pre"
    using assms(1,2) by simp
  have d: "\<And>ys. dropWhile (\<lambda>e. \<not> terminal_report e) (pre @ r # ys) = r # ys"
    using assms(1,2) by simp
  have l: "\<forall>e \<in> set logs. \<not> is_report e \<and> \<not> terminal_report e \<and> e \<noteq> DriverStop"
    using assms(3) log_is_calm by blast
  have p: "filter terminal_report pre = []"
    using assms(1) by (simp add: filter_empty_conv)
  have g: "filter terminal_report logs = []"
    using l by (simp add: filter_empty_conv)
  show "orderly (pre @ r # logs)"
    using assms(1) l by (auto simp add: orderly_def t d)
  show "orderly (pre @ r # Sleep (1 * Second) # DriverStop # logs)"
    using assms(1) l by (auto simp add: orderly_def t d)
  show "length (filter terminal_report (pre @ r # logs)) = 1"
    using assms(2) p g by simp
  show "length (filter terminal_report (pre @ r # Sleep (1 * Second) # DriverStop # logs)) = 1"
    using assms(2) p g by simp
qed

text \<open>The facts about one run taken alone.\<close>

lemma run_calm:
  assumes "\<forall>e \<in> set tr. \<not> terminal_report e \<and> e \<noteq> DriverStop"
  shows "orderly tr \<and> length (filter terminal_report tr) \<le> 1"
  using orderly_calm [OF assms] by simp

lemma run_failed:
  assumes "\<forall>e \<in> set pre. \<not> terminal_report e \<and> e \<noteq> DriverStop"
  shows "orderly (pre @ fst (failTask w t)) \<and>
         length (filter terminal_report (pre @ fst (failTask w t))) = 1 \<and>
         (snd (failTask w t) = Returned () \<longrightarrow> DriverStop \<in> set (pre @ fst (failTask w t)))"
proof (cases rule: failTask_paths [of w t])
  case delivered
  have r: "terminal_report (report (TaskInfo.TaskId t) TASK_FAILED)"
    by (simp add: report_def update_def)
  from orderly_closing(2,4) [OF assms r, of "[]"] delivered show ?thesis
    by simp
next
  case (undelivered l e)
  have r: "terminal_report (report (TaskInfo.TaskId t) TASK_FAILED)"
    by (simp add: report_def update_def)
  from orderly_closing(1,3) [OF assms r, of "[Log ErrorLevel l]"] undelivered show ?thesis
    by simp
qed

lemma watchContainer_calm:
  "\<forall>e \<in> set (fst (watchContainer w c)). \<not> terminal_report e \<and> e \<noteq> DriverStop"
  using watchContainer_events [of w c] by auto

lemma launchedTask_run:
  "orderly (fst (launchedTask w t)) \<and>
   length (filter terminal_report (fst (launchedTask w t))) \<le> 1 \<and>
   (snd (launchedTask w t) = Returned Ended \<longrightarrow>
      length (filter terminal_report (fst (launchedTask w t))) = 1 \<and>
      DriverStop \<in> set (fst (launchedTask w t)))"
proof (cases rule: LaunchTask_paths [of w t])
  case (undelivered l1 l2 f l3 e)
  then have "\<And>c. snd (LaunchTask w t) \<noteq> Returned (Some c)"
    by simp
  then have same: "fst (launchedTask w t) = fst (LaunchTask w t)"
    by (rule launchedTask_not_started)
  have "snd (launchedTask w t) = Panicked e"
    using undelivered by (simp add: launchedTask_def snd_bind)
  with run_calm [of "fst (LaunchTask w t)"] undelivered same show ?thesis
    by (simp add: report_def update_def)
next
  case (no_pull_flag l1 l2 f m)
  then have "\<And>c. snd (LaunchTask w t) \<noteq> Returned (Some c)"
    by simp
  then have same: "fst (launchedTask w t) = fst (LaunchTask w t)"
    by (rule launchedTask_not_started)
  have "snd (launchedTask w t) = Panicked m"
    using no_pull_flag by (simp add: launchedTask_def snd_bind)
  with run_calm [of "fst (LaunchTask w t)"] no_pull_flag same show ?thesis
    by (simp add: report_def update_def)
next
  case (create_refused l1 l2 f l3 b err)
  from create_refused(3) have "\<And>c. snd (LaunchTask w t) \<noteq> Returned (Some c)"
    by (simp split: outcome.splits)
  then have same: "fst (launchedTask w t) = fst (LaunchTask w t)"
    by (rule launchedTask_not_started)
  have ended: "snd (launchedTask w t) = Returned Ended \<Longrightarrow> snd (failTask w t) = Returned ()"
    using create_refused(3)
    by (simp add: launchedTask_def snd_bind ret_def split: outcome.splits)
  let ?pre = "[Log InfoLevel l1, Log InfoLevel l2, WriteFile f,
          report (TaskInfo.TaskId t) TASK_RUNNING] @ (if b then [PullImage] else []) @
         [CreateContainer, Log ErrorLevel l3]"
  have "\<forall>e \<in> set ?pre. \<not> terminal_report e \<and> e \<noteq> DriverStop"
    by (simp add: report_def update_def)
  from run_failed [OF this, of w t] same create_refused(2) ended show ?thesis
    by auto
next
  case (short_id l1 l2 f b c)
  then have "\<And>c. snd (LaunchTask w t) \<noteq> Returned (Some c)"
    by simp
  then have same: "fst (launchedTask w t) = fst (LaunchTask w t)"
    by (rule launchedTask_not_started)
  have "snd (launchedTask w t) = Panicked slice_out_of_range"
    using short_id by (simp add: launchedTask_def snd_bind)
  with run_calm [of "fst (LaunchTask w t)"] short_id same show ?thesis
    by (simp add: report_def update_def)
next
  case (start_refused l1 l2 f l3 l4 b c err)
  from start_refused(4) have "\<And>c. snd (LaunchTask w t) \<noteq> Returned (Some c)"
    by (simp split: outcome.splits)
  then have same: "fst (launchedTask w t) = fst (LaunchTask w t)"
    by (rule launchedTask_not_started)
  have ended: "snd (launchedTask w t) = Returned Ended \<Longrightarrow> snd (failTask w t) = Returned ()"
    using start_refused(4)
    by (simp add: launchedTask_def snd_bind ret_def split: outcome.splits)
  let ?pre = "[Log InfoLevel l1, Log InfoLevel l2, WriteFile f,
          report (TaskInfo.TaskId t) TASK_RUNNING] @ (if b then [PullImage] else []) @
         [CreateContainer, Log InfoLevel l3, StartContainer (Container.ID c),
          Log ErrorLevel l4]"
  have "\<forall>e \<in> set ?pre. \<not> terminal_report e \<and> e \<noteq> DriverStop"
    by (simp add: report_def update_def)
  from run_failed [OF this, of w t] same start_refused(3) ended show ?thesis
    by auto
next
  case (started l1 l2 f l3 b c)
  let ?tr0 = "[Log InfoLevel l1, Log InfoLevel l2, WriteFile f,
           report (TaskInfo.TaskId t) TASK_RUNNING] @ (if b then [PullImage] else []) @
          [CreateContainer, Log InfoLevel l3, StartContainer (Container.ID c),
           Go WatchContainer, Go AwaitLooper]"
  have tr0: "\<forall>e \<in> set ?tr0. \<not> terminal_report e \<and> e \<noteq> DriverStop"
    by (simp add: report_def update_def)
  note launched = started(4)
  show ?thesis
  proof (cases "snd (watchContainer w c)")
    case (Panicked m)
    from launchedTask_watch_panic [OF launched Panicked]
    obtain k where tr: "fst (launchedTask w t) = ?tr0 @ [Log InfoLevel k] @ fst (watchContainer w c)"
      and out: "snd (launchedTask w t) = Panicked m"
      by blast
    have "\<forall>e \<in> set (?tr0 @ [Log InfoLevel k] @ fst (watchContainer w c)).
            \<not> terminal_report e \<and> e \<noteq> DriverStop"
      using tr0 watchContainer_calm [of w c] by auto
    from run_calm [OF this] tr out show ?thesis
      by simp
  next
    case (Returned l)
    show ?thesis
    proof (cases l)
      case Looping
      with Returned have "snd (watchContainer w c) = Returned Looping"
        by simp
      from launchedTask_watch_looping [OF launched this]
      obtain k where tr: "fst (launchedTask w t) = ?tr0 @ [Log InfoLevel k] @ fst (watchContainer w c)"
        and out: "snd (launchedTask w t) = Returned StillRunning"
        by blast
      have "\<forall>e \<in> set (?tr0 @ [Log InfoLevel k] @ fst (watchContainer w c)).
              \<not> terminal_report e \<and> e \<noteq> DriverStop"
        using tr0 watchContainer_calm [of w c] by auto
      from run_calm [OF this] tr out show ?thesis
        by simp
    next
      case (Done x)
      with Returned watchContainer_never_clean [of w c] obtain e where "x = Some e"
        by (cases x) auto
      with Returned Done have "snd (watchContainer w c) = Returned (Done (Some e))"
        by simp
      from launchedTask_watch_error [OF launched this]
      obtain k1 k2 where tr: "fst (launchedTask w t) =
           (?tr0 @ [Log InfoLevel k1] @ fst (watchContainer w c) @ [Log ErrorLevel k2])
             @ fst (failTask w t)"
        and out: "snd (launchedTask w t) =
           (case snd (failTask w t) of Returned u \<Rightarrow> Returned Ended | Panicked m \<Rightarrow> Panicked m)"
        by auto
      have ended: "snd (launchedTask w t) = Returned Ended \<Longrightarrow> snd (failTask w t) = Returned ()"
        using out by (simp split: outcome.splits)
      have "\<forall>e \<in> set (?tr0 @ [Log InfoLevel k1] @ fst (watchContainer w c) @ [Log ErrorLevel k2]).
              \<not> terminal_report e \<and> e \<noteq> DriverStop"
        using tr0 watchContainer_calm [of w c] by auto
      from run_failed [OF this, of w t] tr ended show ?thesis
        by auto
    qed
  qed
qed

lemma KillTask_run:
  "orderly (fst (KillTask w tid)) \<and>
   length (filter terminal_report (fst (KillTask w tid))) = 1 \<and>
   (snd (KillTask w tid) = Returned () \<longrightarrow> DriverStop \<in> set (fst (KillTask w tid)))"
  by (cases "docker_stop w"; cases "docker_inspect w";
      cases "driver_send w (update tid (killed_state (docker_inspect w)))")
    (auto simp add: KillTask_def sendStatus_def prog_defs orderly_def update_def
      killed_state_def Let_def split: if_splits)

text \<open>
  Each run taken alone is in order. In a run of the launch path and in a run of
  \<^verbatim>\<open>KillTask\<close>, at most one terminal state is reported, no state is reported after it,
  and the driver is stopped only right after the sleep of one second that follows the
  terminal report; a run that reaches its end reports exactly one terminal state and
  stops the driver.
\<close>

lemma run_alone:
  "orderly (fst (launchedTask w t)) \<and>
   length (filter terminal_report (fst (launchedTask w t))) \<le> 1 \<and>
   (snd (launchedTask w t) = Returned Ended \<longrightarrow>
      length (filter terminal_report (fst (launchedTask w t))) = 1 \<and>
      DriverStop \<in> set (fst (launchedTask w t))) \<and>
   orderly (fst (KillTask w tid)) \<and>
   length (filter terminal_report (fst (KillTask w tid))) = 1 \<and>
   (snd (KillTask w tid) = Returned () \<longrightarrow> DriverStop \<in> set (fst (KillTask w tid)))"
  using launchedTask_run [of w t] KillTask_run [of w tid] by simp

text \<open>Two runs side by side report as many terminal states as both together, however
  their events fall.\<close>

lemma filter_weave:
  "length (filter P (weave s xs ys)) = length (filter P xs) + length (filter P ys)"
  by (induction s xs ys rule: weave.induct) simp_all

lemma overlap_reports_twice:
  assumes "snd (launchedTask w t) = Returned Ended"
  shows "length (filter terminal_report
           (weave s (fst (launchedTask w t)) (fst (KillTask w tid)))) = 2"
  using assms launchedTask_run [of w t] KillTask_run [of w tid]
  by (simp add: filter_weave)

text \<open>
  C3. Exactly one terminal state should be reported for a task, and no state after it.
  Nothing in \<^verbatim>\<open>KillTask\<close> stops the looper or looks whether the launch path has
  already reported. Here the watcher finds the container gone and \<^verbatim>\<open>failTask\<close>
  reports Failed; the kill request for the same task arrives while \<^verbatim>\<open>failTask\<close>
  sleeps, and \<^verbatim>\<open>KillTask\<close> reports Killed after the terminal report and stops the
  driver a second time. Whatever the order of the two runs, two terminal states are
  reported.
\<close>

theorem kill_overlapping_failed_launch:
  "calls (weave kill_during_sleep (fst (launchedTask world_gone task_1))
            (fst (KillTask world_gone \<lparr>Value = ''task-1''\<rparr>))) =
     [WriteFile ''/tmp/taskinfo.json'', report \<lparr>Value = ''task-1''\<rparr> TASK_RUNNING, PullImage,
      CreateContainer, StartContainer ''abc123456789abcdef'', Go WatchContainer,
      Go AwaitLooper, Sleep SidecarBackoff, ListContainers True,
      report \<lparr>Value = ''task-1''\<rparr> TASK_FAILED, Sleep (1 * Second),
      StopContainer ''task-1'' 5, InspectContainer ''task-1'',
      report \<lparr>Value = ''task-1''\<rparr> TASK_KILLED, Sleep (1 * Second), DriverStop, DriverStop] \<and>
   (\<forall>s. length (filter terminal_report
          (weave s (fst (launchedTask world_gone task_1))
             (fst (KillTask world_gone \<lparr>Value = ''task-1''\<rparr>)))) = 2)"
proof -
  have l: "fst (launchedTask world_gone task_1) =
    [Log InfoLevel (''Launching task web with command '' @ [CHR 0x27] @ ''run'' @ [CHR 0x27]),
     Log InfoLevel ''Task ID task-1'', WriteFile ''/tmp/taskinfo.json'',
     report \<lparr>Value = ''task-1''\<rparr> TASK_RUNNING, PullImage, CreateContainer,
     Log InfoLevel ''Starting container with ID abc123456789'',
     StartContainer ''abc123456789abcdef'', Go WatchContainer, Go AwaitLooper,
     Log InfoLevel ''Monitoring container abc123456789 for Mesos task task-1'',
     Sleep SidecarBackoff, ListContainers True,
     Log ErrorLevel ''Error! Container abc123456789abcdef not running!'',
     report \<lparr>Value = ''task-1''\<rparr> TASK_FAILED, Sleep (1 * Second), DriverStop]"
    by (simp add: launchedTask_def LaunchTask_def watchContainer_def watchRound_def
      awaitLooper_def failTask_def sendStatus_def forcePull_def prog_defs Let_def
      report_def update_def world_gone_def world_kill_errors_def world_calm_def task_1_def
      round_absent_def container_abc_def)
  have k: "fst (KillTask world_gone \<lparr>Value = ''task-1''\<rparr>) =
    [Log InfoLevel ''Killing task: task-1'', StopContainer ''task-1'' 5,
     Log ErrorLevel ''Error stopping container task-1! No such container: task-1'',
     InspectContainer ''task-1'',
     Log ErrorLevel ''Error inspecting container task-1! No such container: task-1'',
     report \<lparr>Value = ''task-1''\<rparr> TASK_KILLED, Sleep (1 * Second), DriverStop]"
    by (simp add: KillTask_def sendStatus_def prog_defs Let_def report_def update_def
      world_gone_def world_kill_errors_def world_calm_def KillTaskTimeout_def)
  have a: "calls (weave kill_during_sleep (fst (launchedTask world_gone task_1))
            (fst (KillTask world_gone \<lparr>Value = ''task-1''\<rparr>))) =
     [WriteFile ''/tmp/taskinfo.json'', report \<lparr>Value = ''task-1''\<rparr> TASK_RUNNING, PullImage,
      CreateContainer, StartContainer ''abc123456789abcdef'', Go WatchContainer,
      Go AwaitLooper, Sleep SidecarBackoff, ListContainers True,
      report \<lparr>Value = ''task-1''\<rparr> TASK_FAILED, Sleep (1 * Second),
      StopContainer ''task-1'' 5, InspectContainer ''task-1'',
      report \<lparr>Value = ''task-1''\<rparr> TASK_KILLED, Sleep (1 * Second), DriverStop, DriverStop]"
    unfolding l k by (simp add: kill_during_sleep_def calls_def report_def eval_nat_numeral)
  have b: "\<forall>s. length (filter terminal_report
          (weave s (fst (launchedTask world_gone task_1))
             (fst (KillTask world_gone \<lparr>Value = ''task-1''\<rparr>)))) = 2"
    unfolding l k by (simp add: filter_weave report_def update_def)
  from a b show ?thesis ..
qed

section \<open>Properties of the log relay\<close>

lemma scanned_unknown:
  assumes "name \<noteq> ''stdout''" and "name \<noteq> ''stderr''"
  shows "\<exists>l. scanned name text q =
           ([Log DebugLevel (''docker: '' @ text), Log ErrorLevel l], Return, q)"
  using assms by (simp add: scanned_def)

lemma drained_logs: "\<forall>e \<in> set (drained name err). is_log e"
  by (auto simp add: drained_def split: option.splits)

lemma handleOneStream_unknown:
  assumes "name \<noteq> ''stdout''" and "name \<noteq> ''stderr''"
  shows "snd (handleOneStream q name rd) = q"
    and "\<forall>e \<in> set (fst (handleOneStream q name rd)). is_log e"
    and "length (filter (\<lambda>e. \<exists>text. e = Log DebugLevel (''docker: '' @ text))
           (fst (handleOneStream q name rd))) \<le> 1"
proof -
  show "snd (handleOneStream q name rd) = q"
  proof (cases "Lines rd")
    case Nil
    then show ?thesis
      by (simp add: handleOneStream_def)
  next
    case (Cons ln others)
    with scanned_unknown [OF assms, of ln q] show ?thesis
      by (auto simp add: handleOneStream_def)
  qed
  show "\<forall>e \<in> set (fst (handleOneStream q name rd)). is_log e"
  proof (cases "Lines rd")
    case Nil
    with drained_logs [of name "Err rd"] show ?thesis
      by (simp add: handleOneStream_def)
  next
    case (Cons ln others)
    with scanned_unknown [OF assms, of ln q] show ?thesis
      by (auto simp add: handleOneStream_def)
  qed
  show "length (filter (\<lambda>e. \<exists>text. e = Log DebugLevel (''docker: '' @ text))
           (fst (handleOneStream q name rd))) \<le> 1"
  proof (cases "Lines rd")
    case Nil
    then show ?thesis
      by (simp add: handleOneStream_def drained_def split: option.splits)
  next
    case (Cons ln others)
    with scanned_unknown [OF assms, of ln q] show ?thesis
      by (auto simp add: handleOneStream_def)
  qed
qed

lemma pumpStep_unknown_cases:
  assumes "stream p \<noteq> ''stdout''" and "stream p \<noteq> ''stderr''"
  obtains
    (exited) "\<not> running p" "pumpStep q p = ([], p, q)"
  | (drained) "running p" "pumpStep q p = (drained (stream p) (failure p), p\<lparr>running := False\<rparr>, q)"
  | (scanned) ln others l where "running p"
      "pumpStep q p = ([Log DebugLevel (''docker: '' @ ln), Log ErrorLevel l],
                       p\<lparr>rest := others, running := False\<rparr>, q)"
proof (cases "running p")
  case False
  then have "pumpStep q p = ([], p, q)"
    by (simp add: pumpStep_def)
  with False exited show ?thesis
    by blast
next
  case True
  show ?thesis
  proof (cases "rest p")
    case Nil
    with True have "pumpStep q p = (drained (stream p) (failure p), p\<lparr>running := False\<rparr>, q)"
      by (simp add: pumpStep_def)
    with True drained show ?thesis
      by blast
  next
    case (Cons ln others)
    from scanned_unknown [OF assms, of ln q] obtain l where
      "scanned (stream p) ln q = ([Log DebugLevel (''docker: '' @ ln), Log ErrorLevel l], Return, q)"
      by blast
    with True Cons have "pumpStep q p =
      ([Log DebugLevel (''docker: '' @ ln), Log ErrorLevel l],
       p\<lparr>rest := others, running := False\<rparr>, q)"
      by (simp add: pumpStep_def)
    with True scanned show ?thesis
      by blast
  qed
qed

lemma pumpStep_unknown:
  assumes "stream p \<noteq> ''stdout''" and "stream p \<noteq> ''stderr''"
  shows "snd (snd (pumpStep q p)) = q"
    and "stream (fst (snd (pumpStep q p))) = stream p"
    and "\<forall>e \<in> set (fst (pumpStep q p)). is_log e"
    and "running p \<Longrightarrow> \<not> running (fst (snd (pumpStep q p)))"
proof -
  show "snd (snd (pumpStep q p)) = q"
    by (cases rule: pumpStep_unknown_cases [OF assms, of q]) simp_all
  show "stream (fst (snd (pumpStep q p))) = stream p"
    by (cases rule: pumpStep_unknown_cases [OF assms, of q]) simp_all
  show "\<forall>e \<in> set (fst (pumpStep q p)). is_log e"
    using drained_logs [of "stream p" "failure p"]
    by (cases rule: pumpStep_unknown_cases [OF assms, of q]) simp_all
  show "running p \<Longrightarrow> \<not> running (fst (snd (pumpStep q p)))"
    by (cases rule: pumpStep_unknown_cases [OF assms, of q]) simp_all
qed

text \<open>Two relays that differ in their first pump only, the first pump of the one having
  an unknown stream name: whatever the schedule, the second pump and the channel fare in
  the one as they do in the other when the first pump never moves.\<close>

lemma relayRun_unknown:
  assumes "stream (first r) \<noteq> ''stdout''" and "stream (first r) \<noteq> ''stderr''"
    and "quitChan r = quitChan r0" and "second r = second r0"
  shows "filter (\<lambda>x. fst x \<noteq> FirstPump) (fst (relayRun sched r)) =
           fst (relayRun (filter (\<lambda>a. a \<noteq> FirstPump) sched) r0) \<and>
         second (snd (relayRun sched r)) =
           second (snd (relayRun (filter (\<lambda>a. a \<noteq> FirstPump) sched) r0)) \<and>
         quitChan (snd (relayRun sched r)) =
           quitChan (snd (relayRun (filter (\<lambda>a. a \<noteq> FirstPump) sched) r0)) \<and>
         (\<forall>x \<in> set (fst (relayRun sched r)). fst x = FirstPump \<longrightarrow> is_log (snd x))"
  using assms
proof (induction sched arbitrary: r r0)
  case Nil
  then show ?case
    by simp
next
  case (Cons a sched)
  show ?case
  proof (cases a)
    case FirstPump
    obtain evs p q where st: "pumpStep (quitChan r) (first r) = (evs, p, q)"
      by (cases "pumpStep (quitChan r) (first r)") auto
    from pumpStep_unknown [OF Cons.prems(1,2), of "quitChan r"] st
    have q: "q = quitChan r" and p: "stream p = stream (first r)"
      and evs: "\<forall>e \<in> set evs. is_log e"
      by simp_all
    let ?r' = "r\<lparr>quitChan := q, first := p\<rparr>"
    have "stream (first ?r') \<noteq> ''stdout''" "stream (first ?r') \<noteq> ''stderr''"
      "quitChan ?r' = quitChan r0" "second ?r' = second r0"
      using Cons.prems p q by simp_all
    from Cons.IH [OF this] st evs FirstPump show ?thesis
      by (auto split: prod.splits)
  next
    case SecondPump
    obtain evs p q where st: "pumpStep (quitChan r) (second r) = (evs, p, q)"
      by (cases "pumpStep (quitChan r) (second r)") auto
    with Cons.prems(3,4) have st0: "pumpStep (quitChan r0) (second r0) = (evs, p, q)"
      by simp
    let ?r' = "r\<lparr>quitChan := q, second := p\<rparr>"
    let ?r0' = "r0\<lparr>quitChan := q, second := p\<rparr>"
    have "stream (first ?r') \<noteq> ''stdout''" "stream (first ?r') \<noteq> ''stderr''"
      "quitChan ?r' = quitChan ?r0'" "second ?r' = second ?r0'"
      using Cons.prems by simp_all
    from Cons.IH [OF this] st st0 SecondPump show ?thesis
      by (auto split: prod.splits)
  next
    case CloseQuit
    let ?r' = "r\<lparr>quitChan := (quitChan r)\<lparr>closed := True\<rparr>\<rparr>"
    let ?r0' = "r0\<lparr>quitChan := (quitChan r0)\<lparr>closed := True\<rparr>\<rparr>"
    have "stream (first ?r') \<noteq> ''stdout''" "stream (first ?r') \<noteq> ''stderr''"
      "quitChan ?r' = quitChan ?r0'" "second ?r' = second ?r0'"
      using Cons.prems by simp_all
    from Cons.IH [OF this] CloseQuit show ?thesis
      by (auto split: prod.splits)
  next
    case OfferQuit
    let ?r' = "r\<lparr>quitChan := (quitChan r)\<lparr>ready := Suc (ready (quitChan r))\<rparr>\<rparr>"
    let ?r0' = "r0\<lparr>quitChan := (quitChan r0)\<lparr>ready := Suc (ready (quitChan r0))\<rparr>\<rparr>"
    have "stream (first ?r') \<noteq> ''stdout''" "stream (first ?r') \<noteq> ''stderr''"
      "quitChan ?r' = quitChan ?r0'" "second ?r' = second ?r0'"
      using Cons.prems by simp_all
    from Cons.IH [OF this] OfferQuit show ?thesis
      by (auto split: prod.splits)
  qed
qed

text \<open>The two readings of the pump agree: a pump that is the only one to move goes
  through the events of \<^verbatim>\<open>handleOneStream\<close> and leaves the channel as it does.\<close>

lemma relayRun_exited:
  "\<not> running (first r) \<Longrightarrow> relayRun (replicate n FirstPump) r = ([], r)"
  by (induction n) (simp_all add: pumpStep_def)

lemma relayRun_alone:
  assumes "running (first r)" and "rest (first r) = ls"
  shows "fst (relayRun (replicate (Suc (length ls)) FirstPump) r) =
           map (Pair FirstPump) (fst (scanLoop (quitChan r) (stream (first r)) ls (failure (first r)))) \<and>
         quitChan (snd (relayRun (replicate (Suc (length ls)) FirstPump) r)) =
           snd (scanLoop (quitChan r) (stream (first r)) ls (failure (first r)))"
  using assms
proof (induction ls arbitrary: r)
  case Nil
  then show ?case
    by (simp add: pumpStep_def)
next
  case (Cons ln ls)
  obtain evs fl q' where sc: "scanned (stream (first r)) ln (quitChan r) = (evs, fl, q')"
    by (cases "scanned (stream (first r)) ln (quitChan r)") auto
  show ?case
  proof (cases fl)
    case Return
    let ?r' = "r\<lparr>quitChan := q', first := (first r)\<lparr>rest := ls, running := False\<rparr>\<rparr>"
    have "relayRun (replicate (Suc (length ls)) FirstPump) ?r' = ([], ?r')"
      by (rule relayRun_exited) simp
    with Cons.prems sc Return show ?thesis
      by (simp add: pumpStep_def)
  next
    case Continue
    let ?r' = "r\<lparr>quitChan := q', first := (first r)\<lparr>rest := ls\<rparr>\<rparr>"
    let ?n = "replicate (Suc (length ls)) FirstPump"
    have step: "relayStep FirstPump r = (map (Pair FirstPump) evs, ?r')"
      using Cons.prems sc Continue by (simp add: pumpStep_def)
    have run: "relayRun (replicate (Suc (length (ln # ls))) FirstPump) r =
                 (map (Pair FirstPump) evs @ fst (relayRun ?n ?r'), snd (relayRun ?n ?r'))"
      using step by (simp del: relayStep.simps split: prod.splits)
    have loop: "scanLoop (quitChan r) (stream (first r)) (ln # ls) (failure (first r)) =
                  (evs @ fst (scanLoop q' (stream (first r)) ls (failure (first r))),
                   snd (scanLoop q' (stream (first r)) ls (failure (first r))))"
      using sc Continue by (simp split: prod.splits)
    have "running (first ?r')" "rest (first ?r') = ls"
      using Cons.prems by simp_all
    from Cons.IH [OF this]
    have "fst (relayRun ?n ?r') =
            map (Pair FirstPump) (fst (scanLoop q' (stream (first r)) ls (failure (first r))))"
      and "quitChan (snd (relayRun ?n ?r')) =
            snd (scanLoop q' (stream (first r)) ls (failure (first r)))"
      by simp_all
    then show ?thesis
      by (simp only: run loop fst_conv snd_conv map_append)
  qed
qed

text \<open>
  C9. A pump started with a stream name other than \<open>stdout\<close> and \<open>stderr\<close> forwards no
  line to the log sink and performs no receive on the quit channel; it ends when the
  first line arrives (or the input ends), with its own log lines only, so that it has
  exited after the first step it takes. Next to another pump, under any schedule, it
  leaves the other pump and the quit channel as they are when it never moves: the
  events and the final state of the other pump and the state of the channel are those
  of the schedule without the steps of the unknown pump.
\<close>

theorem unknown_stream_pump_forwards_nothing:
  assumes "name \<noteq> ''stdout''" and "name \<noteq> ''stderr''" and "stream (first r) = name"
  shows "filter is_syslog (fst (handleOneStream q name rd)) = [] \<and>
         snd (handleOneStream q name rd) = q \<and>
         (Lines rd = [] \<longrightarrow> fst (handleOneStream q name rd) = drained name (Err rd)) \<and>
         (\<forall>ln others. Lines rd = ln # others \<longrightarrow>
            (\<exists>l. fst (handleOneStream q name rd) =
                   [Log DebugLevel (''docker: '' @ ln), Log ErrorLevel l])) \<and>
         (running (first r) \<longrightarrow> \<not> running (first (snd (relayStep FirstPump r)))) \<and>
         (\<forall>x \<in> set (fst (relayRun sched r)). fst x = FirstPump \<longrightarrow> \<not> is_syslog (snd x)) \<and>
         filter (\<lambda>x. fst x \<noteq> FirstPump) (fst (relayRun sched r)) =
           fst (relayRun (filter (\<lambda>a. a \<noteq> FirstPump) sched) r) \<and>
         second (snd (relayRun sched r)) =
           second (snd (relayRun (filter (\<lambda>a. a \<noteq> FirstPump) sched) r)) \<and>
         quitChan (snd (relayRun sched r)) =
           quitChan (snd (relayRun (filter (\<lambda>a. a \<noteq> FirstPump) sched) r))"
proof -
  have logs: "\<And>e. is_log e \<Longrightarrow> \<not> is_syslog e"
    by (case_tac e) simp_all
  from handleOneStream_unknown(2) [OF assms(1,2), of q rd] logs
  have a: "filter is_syslog (fst (handleOneStream q name rd)) = []"
    by (auto simp add: filter_empty_conv)
  have b: "snd (handleOneStream q name rd) = q"
    by (rule handleOneStream_unknown(1) [OF assms(1,2)])
  have c: "Lines rd = [] \<longrightarrow> fst (handleOneStream q name rd) = drained name (Err rd)"
    by (simp add: handleOneStream_def)
  have d: "\<forall>ln others. Lines rd = ln # others \<longrightarrow>
            (\<exists>l. fst (handleOneStream q name rd) =
                   [Log DebugLevel (''docker: '' @ ln), Log ErrorLevel l])"
  proof (intro allI impI)
    fix ln others
    assume "Lines rd = ln # others"
    with scanned_unknown [OF assms(1,2), of ln q]
    show "\<exists>l. fst (handleOneStream q name rd) =
                   [Log DebugLevel (''docker: '' @ ln), Log ErrorLevel l]"
      by (auto simp add: handleOneStream_def)
  qed
  have n: "stream (first r) \<noteq> ''stdout''" "stream (first r) \<noteq> ''stderr''"
    using assms by simp_all
  have e: "running (first r) \<longrightarrow> \<not> running (first (snd (relayStep FirstPump r)))"
    using pumpStep_unknown(4) [OF n, of "quitChan r"]
    by (cases "pumpStep (quitChan r) (first r)") auto
  from relayRun_unknown [OF n refl refl, of sched] logs a b c d e show ?thesis
    by blast
qed

theorem unknown_stream_pump_forwards_nothing_witness:
  "''stdin'' \<noteq> ''stdout'' \<and> ''stdin'' \<noteq> ''stderr'' \<and> stream (first relay_stdin) = ''stdin'' \<and>
   filter is_syslog
     (fst (handleOneStream chan_open ''stdin'' \<lparr>Lines = [''one'', ''two''], Err = None\<rparr>)) = [] \<and>
   filter (\<lambda>x. fst x \<noteq> FirstPump)
     (fst (relayRun [FirstPump, SecondPump, FirstPump, SecondPump, SecondPump] relay_stdin)) =
   fst (relayRun [SecondPump, SecondPump, SecondPump] relay_stdin)"
proof -
  have a: "''stdin'' \<noteq> ''stdout''" and b: "''stdin'' \<noteq> ''stderr''"
    by simp_all
  have c: "stream (first relay_stdin) = ''stdin''"
    by (simp add: relay_stdin_def)
  have s: "filter (\<lambda>a. a \<noteq> FirstPump) [FirstPump, SecondPump, FirstPump, SecondPump, SecondPump]
             = [SecondPump, SecondPump, SecondPump]"
    by simp
  from unknown_stream_pump_forwards_nothing [OF a b c, of chan_open
      "\<lparr>Lines = [''one'', ''two''], Err = None\<rparr>"
      "[FirstPump, SecondPump, FirstPump, SecondPump, SecondPump]"]
  have "filter is_syslog
     (fst (handleOneStream chan_open ''stdin'' \<lparr>Lines = [''one'', ''two''], Err = None\<rparr>)) = []"
    and "filter (\<lambda>x. fst x \<noteq> FirstPump)
     (fst (relayRun [FirstPump, SecondPump, FirstPump, SecondPump, SecondPump] relay_stdin)) =
      fst (relayRun (filter (\<lambda>a. a \<noteq> FirstPump)
            [FirstPump, SecondPump, FirstPump, SecondPump, SecondPump]) relay_stdin)"
    by blast+
  with a b c s show ?thesis
    by simp
qed

section \<open>Bounds of a poll and of a launch\<close>

text \<open>For every poll: at most \<^verbatim>\<open>SidecarRetryCount\<close> requests, counted from zero in each
  call, and no sleep between them.\<close>

lemma fetch_one_request:
  "length (filter (\<lambda>e. e = HttpGet SidecarUrl) (fst (fetch a))) = 1"
  by (cases a) simp_all

lemma retryLoop_requests:
  "length (filter (\<lambda>e. e = HttpGet SidecarUrl) (fst (retryLoop ans i acc)))
     \<le> SidecarRetryCount - i"
proof (induction ans i acc rule: retryLoop.induct)
  case (1 ans i data err)
  show ?case
  proof (cases "i < SidecarRetryCount")
    case False
    then show ?thesis
      by (subst retryLoop.simps) (simp add: ret_def)
  next
    case True
    show ?thesis
    proof (cases "fetch (ans i)")
      case (Pair tr r)
      with fetch_one_request [of "ans i"]
      have tr: "length (filter (\<lambda>e. e = HttpGet SidecarUrl) tr) = 1"
        by simp
      show ?thesis
      proof (cases r)
        case (Panicked m)
        with Pair True tr show ?thesis
          by (subst retryLoop.simps) (simp add: bind_def)
      next
        case (Returned p)
        obtain d e where p: "p = (d, e)"
          by (cases p)
        have ih: "length (filter (\<lambda>e. e = HttpGet SidecarUrl)
                    (fst (retryLoop ans (Suc i) (d, e)))) \<le> SidecarRetryCount - Suc i"
          using 1(1) [OF True, of e d] 1(2) [OF True, of e d] by (cases e) auto
        with Pair True tr Returned p show ?thesis
          by (subst retryLoop.simps) (auto simp add: bind_def split: prod.splits)
      qed
    qed
  qed
qed

lemma sidecarStatus_requests:
  "length (filter (\<lambda>e. e = HttpGet SidecarUrl) (fst (sidecarStatus reg c))) \<le> SidecarRetryCount"
    and "Sleep d \<notin> set (fst (sidecarStatus reg c))"
proof -
  obtain tr r where l: "retryLoop (answers reg) 0 ('''', None) = (tr, r)"
    by (cases "retryLoop (answers reg) 0 ('''', None)")
  with retryLoop_requests [of "answers reg" 0 "('''', None)"]
  have tr: "length (filter (\<lambda>e. e = HttpGet SidecarUrl) tr) \<le> SidecarRetryCount"
    by simp
  show "length (filter (\<lambda>e. e = HttpGet SidecarUrl) (fst (sidecarStatus reg c))) \<le> SidecarRetryCount"
  proof (cases r)
    case (Panicked m)
    with l tr show ?thesis
      by (simp add: sidecarStatus_def bind_def)
  next
    case (Returned p)
    obtain da e where p: "p = (da, e)"
      by (cases p)
    from l tr Returned p show ?thesis
      by (auto simp add: sidecarStatus_def prog_defs Let_def split: option.splits)
  qed
  from sidecarStatus_events [of reg c] show "Sleep d \<notin> set (fst (sidecarStatus reg c))"
    by auto
qed

text \<open>Every container that \<^verbatim>\<open>LaunchTask\<close> hands to its goroutines has an identifier
  of at least twelve characters: the slice \<^verbatim>\<open>container.ID[:12]\<close> in the log line before
  the start call has already been taken.\<close>

lemma launched_container_id:
  assumes "LaunchTask w t = (tr, Returned (Some c))"
  shows "12 \<le> length (Container.ID c)"
  using assms
  by (cases rule: LaunchTask_paths [of w t]) (auto split: outcome.splits)

end
